theory Spec2Isabelle
  imports Main "HOL-Library.Multiset" "HOL-Library.Product_Lexorder"
begin

unbundle bit_operations_syntax

section \<open>Cards\<close>

text \<open>
  The enum \<open>Uno.Color\<close> of \<open>uno.js\<close>. The numeric value of each entry is kept in
  \<open>colorNum\<close>; it is what the comparator of the hand sort subtracts.
\<close>

datatype color = NONE | RED | BLUE | GREEN | YELLOW

fun colorNum :: "color \<Rightarrow> nat" where
  "colorNum NONE = 0"
| "colorNum RED = 1"
| "colorNum BLUE = 2"
| "colorNum GREEN = 3"
| "colorNum YELLOW = 4"

text \<open>
  The enum \<open>Uno.CardFace\<close>: a face is a number whose low three nibbles are the base rank
  and whose higher bits are effect flags. All values are non-negative integers, on which
  the \<open>&\<close> of the source is the bitwise conjunction of naturals.
\<close>

definition EFFECT_MASK :: nat where "EFFECT_MASK = 0xFF000"
definition BASE_MASK :: nat where "BASE_MASK = 0x00FFF"
definition WILD_EFFECT :: nat where "WILD_EFFECT = 0x01000"
definition SKIP_EFFECT :: nat where "SKIP_EFFECT = 0x02000"
definition REVERSE_EFFECT :: nat where "REVERSE_EFFECT = 0x04000"
definition DRAW_TWO_EFFECT :: nat where "DRAW_TWO_EFFECT = 0x08000"
definition DRAW_FOUR_EFFECT :: nat where "DRAW_FOUR_EFFECT = 0x10000"

definition SKIP :: nat where "SKIP = 0x02010"
definition DRAW_TWO :: nat where "DRAW_TWO = 0x0A020"
definition REVERSE :: nat where "REVERSE = 0x04030"
definition WILD :: nat where "WILD = 0x01040"
definition DRAW_FOUR :: nat where "DRAW_FOUR = 0x13050"
definition ZERO :: nat where "ZERO = 0x0"
definition ONE :: nat where "ONE = 0x1"
definition TWO :: nat where "TWO = 0x2"
definition THREE :: nat where "THREE = 0x3"
definition FOUR :: nat where "FOUR = 0x4"
definition FIVE :: nat where "FIVE = 0x5"
definition SIX :: nat where "SIX = 0x6"
definition SEVEN :: nat where "SEVEN = 0x7"
definition EIGHT :: nat where "EIGHT = 0x8"
definition NINE :: nat where "NINE = 0x9"

text \<open>The faces a card of the deck or a parsed card can have (the non-effect, non-mask entries).\<close>

definition cardFaces :: "nat list" where
  "cardFaces = [ZERO, ONE, TWO, THREE, FOUR, FIVE, SIX, SEVEN, EIGHT, NINE,
                SKIP, DRAW_TWO, REVERSE, WILD, DRAW_FOUR]"

text \<open>The class \<open>Uno.Card\<close>: a face and a color, both mutable fields of the object.\<close>

record card =
  face :: nat
  color :: color

definition Card :: "nat \<Rightarrow> color \<Rightarrow> card" where
  "Card f c = \<lparr>face = f, color = c\<rparr>"

text \<open>\<open>Uno.getHand\<close>: the array literal, in the order of the source.\<close>

definition getHand :: "card list" where
  "getHand = [
     Card ZERO RED, Card ZERO GREEN, Card ZERO YELLOW, Card ZERO BLUE,
     Card ONE RED, Card ONE RED, Card ONE GREEN, Card ONE GREEN,
     Card ONE YELLOW, Card ONE YELLOW, Card ONE BLUE, Card ONE BLUE,
     Card TWO RED, Card TWO RED, Card TWO GREEN, Card TWO GREEN,
     Card TWO YELLOW, Card TWO YELLOW, Card TWO BLUE, Card TWO BLUE,
     Card THREE RED, Card THREE RED, Card THREE GREEN, Card THREE GREEN,
     Card THREE YELLOW, Card THREE YELLOW, Card THREE BLUE, Card THREE BLUE,
     Card FOUR RED, Card FOUR RED, Card FOUR GREEN, Card FOUR GREEN,
     Card FOUR YELLOW, Card FOUR YELLOW, Card FOUR BLUE, Card FOUR BLUE,
     Card FIVE RED, Card FIVE RED, Card FIVE GREEN, Card FIVE GREEN,
     Card FIVE YELLOW, Card FIVE YELLOW, Card FIVE BLUE, Card FIVE BLUE,
     Card SIX RED, Card SIX RED, Card SIX GREEN, Card SIX GREEN,
     Card SIX YELLOW, Card SIX YELLOW, Card SIX BLUE, Card SIX BLUE,
     Card SEVEN RED, Card SEVEN RED, Card SEVEN GREEN, Card SEVEN GREEN,
     Card SEVEN YELLOW, Card SEVEN YELLOW, Card SEVEN BLUE, Card SEVEN BLUE,
     Card EIGHT RED, Card EIGHT RED, Card EIGHT GREEN, Card EIGHT GREEN,
     Card EIGHT YELLOW, Card EIGHT YELLOW, Card EIGHT BLUE, Card EIGHT BLUE,
     Card NINE RED, Card NINE RED, Card NINE GREEN, Card NINE GREEN,
     Card NINE YELLOW, Card NINE YELLOW, Card NINE BLUE, Card NINE BLUE,
     Card DRAW_TWO RED, Card DRAW_TWO RED, Card DRAW_TWO GREEN, Card DRAW_TWO GREEN,
     Card DRAW_TWO YELLOW, Card DRAW_TWO YELLOW, Card DRAW_TWO BLUE, Card DRAW_TWO BLUE,
     Card SKIP RED, Card SKIP RED, Card SKIP GREEN, Card SKIP GREEN,
     Card SKIP YELLOW, Card SKIP YELLOW, Card SKIP BLUE, Card SKIP BLUE,
     Card REVERSE RED, Card REVERSE RED, Card REVERSE GREEN, Card REVERSE GREEN,
     Card REVERSE YELLOW, Card REVERSE YELLOW, Card REVERSE BLUE, Card REVERSE BLUE,
     Card WILD NONE, Card WILD NONE, Card WILD NONE, Card WILD NONE,
     Card DRAW_FOUR NONE, Card DRAW_FOUR NONE, Card DRAW_FOUR NONE, Card DRAW_FOUR NONE]"

text \<open>
  The standard deck in the words of the specification: for each of the four colors one 0,
  two each of 1 to 9, two Skip, two Reverse, two DrawTwo; plus four colorless Wild and
  four colorless WildDrawFour.
\<close>

definition deckOfColor :: "color \<Rightarrow> card list" where
  "deckOfColor c =
     Card ZERO c #
     concat (map (\<lambda>f. replicate 2 (Card f c))
       [ONE, TWO, THREE, FOUR, FIVE, SIX, SEVEN, EIGHT, NINE, SKIP, REVERSE, DRAW_TWO])"

definition standardDeck :: "card list" where
  "standardDeck =
     concat (map deckOfColor [RED, BLUE, GREEN, YELLOW]) @
     replicate 4 (Card WILD NONE) @ replicate 4 (Card DRAW_FOUR NONE)"

text \<open>
  \<open>checkCard(card, card2)\<close>. The second argument here is the value of
  \<open>card2 || topCard\<close>, which is \<open>null\<close> when no card was given and no card lies on top;
  reading \<open>card2.face\<close> then throws, which is the result \<open>None\<close>.
\<close>

definition checkCard :: "card \<Rightarrow> card option \<Rightarrow> bool option" where
  "checkCard c c2 =
     (if face c AND WILD_EFFECT \<noteq> 0 then Some True
      else case c2 of
             None \<Rightarrow> None
           | Some t \<Rightarrow>
               (let cardFace = face c AND BASE_MASK;
                    card2Face = face t AND BASE_MASK
                in Some (cardFace = card2Face \<or> color c = color t)))"

text \<open>
  The test of a human play against the top card in \<open>playCard\<close>:
  \<open>parsed.face == topCard.face || (parsed.face & WILD_EFFECT || parsed.color == topCard.color)\<close>.
\<close>

definition matchesTop :: "card \<Rightarrow> card \<Rightarrow> bool" where
  "matchesTop parsed t =
     (face parsed = face t \<or> (face parsed AND WILD_EFFECT \<noteq> 0 \<or> color parsed = color t))"

section \<open>Players and the game\<close>

text \<open>
  The fields of \<open>Uno.Player\<close> and \<open>Uno.NPC\<close> that the rules read: the id, whether the
  player is autonomous, the hand and the flag \<open>calledUno\<close>.
\<close>

record player =
  ident :: string
  npc :: bool
  hand :: "card list"
  calledUno :: bool

text \<open>Why a human play is refused (each is one message to the group channel).\<close>

datatype refusal = NoCardGiven | UnknownCard | ColorNeeded | NotValid | NotHeld

text \<open>
  What the game announces in the group channel and which timers it sets, as far as the
  rules depend on them: the two announcements of \<open>nextTurn\<close>, the timer that makes an
  autonomous player play, the timer that makes it call, the two messages of \<open>callUno\<close>,
  the winner, the refusals, and the timer of \<open>endGame\<close>.
\<close>

datatype event =
    Skipping string
  | NextTurn string
  | PlayTimer
  | CallTimer string
  | UnoCalled string
  | ForgotUno string
  | Winner string
  | Refused refusal
  | SetupTimer

text \<open>
  The variables of the closure \<open>Uno.Game\<close>. \<open>maker\<close> is \<open>maker.id\<close>; \<open>announced\<close> is the
  sequence of events so far.
\<close>

record game =
  players :: "player list"
  discarded :: "card list"
  turn :: int
  previousTurn :: int
  topCard :: "card option"
  direction :: int
  started :: bool
  maker :: string
  announced :: "event list"

text \<open>
  A call either returns a value, or throws (a \<open>TypeError\<close> on reading a property of
  \<open>undefined\<close>); in both cases the variables of the game are as the call left them.
\<close>

datatype 'a outcome = Return 'a game | Throw game

fun stateOf :: "'a outcome \<Rightarrow> game" where
  "stateOf (Return v g) = g"
| "stateOf (Throw g) = g"

text \<open>\<open>players[i]\<close>: \<open>undefined\<close> outside the array.\<close>

definition playerAt :: "game \<Rightarrow> int \<Rightarrow> player option" where
  "playerAt g i =
     (if 0 \<le> i \<and> i < int (length (players g)) then Some (players g ! nat i) else None)"

definition setPlayer :: "int \<Rightarrow> player \<Rightarrow> game \<Rightarrow> game" where
  "setPlayer i p g = g\<lparr>players := (players g)[nat i := p]\<rparr>"

definition say :: "event list \<Rightarrow> game \<Rightarrow> game" where
  "say es g = g\<lparr>announced := announced g @ es\<rparr>"

text \<open>
  \<open>Math.floor(Math.random() * n)\<close>: any index below \<open>n\<close>, and 0 when \<open>n\<close> is 0. The
  samples of \<open>Math.random\<close> are an input of the model: the sample \<open>r\<close> is an arbitrary
  natural number and selects the index \<open>r mod n\<close>.
\<close>

definition randomIndex :: "nat \<Rightarrow> nat \<Rightarrow> nat" where
  "randomIndex r n = (if n = 0 then 0 else r mod n)"

text \<open>\<open>Math.random() < probCallUno\<close>: the sample decides it either way.\<close>

definition chance :: "nat \<Rightarrow> bool" where
  "chance r = even r"

text \<open>\<open>colorPairs[Math.floor(Math.random() * (colorPairs.length - 1)) + 1][1]\<close>.\<close>

definition randomColor :: "nat \<Rightarrow> color" where
  "randomColor r = [NONE, RED, BLUE, GREEN, YELLOW] ! (randomIndex r 4 + 1)"

text \<open>\<open>xs.splice(i, 1)\<close>: the list without its element at \<open>i\<close>.\<close>

definition splice1 :: "nat \<Rightarrow> 'a list \<Rightarrow> 'a list" where
  "splice1 i xs = take i xs @ drop (Suc i) xs"

section \<open>Drawing\<close>

text \<open>
  The loop of \<open>drawCards\<close>: up to \<open>num\<close> times, stop when the pool is empty, else take
  a random card out of the pool, reset its color when it is a wild card and push it on
  \<open>drawn\<close>. The result is \<open>drawn\<close> and what is left of the pool.
\<close>

definition resetWild :: "card \<Rightarrow> card" where
  "resetWild single =
     (if face single AND WILD_EFFECT \<noteq> 0 then single\<lparr>color := NONE\<rparr> else single)"

fun drawLoop :: "(nat \<Rightarrow> nat) \<Rightarrow> nat \<Rightarrow> card list \<Rightarrow> card list \<times> card list" where
  "drawLoop rnd 0 pool = ([], pool)"
| "drawLoop rnd (Suc n) pool =
     (if length pool = 0 then ([], pool)
      else
        let i = randomIndex (rnd 0) (length pool);
            single = pool ! i;
            rest = splice1 i pool;
            single' = resetWild single;
            (drawn, pool') = drawLoop (\<lambda>k. rnd (Suc k)) n rest
        in (single' # drawn, pool'))"

text \<open>
  The comparator of the sort of a human hand orders by face, then by color: the order of
  the pairs \<open>cardKey\<close>.
\<close>

definition cardKey :: "card \<Rightarrow> nat \<times> nat" where
  "cardKey c = (face c, colorNum (color c))"

definition sortHand :: "card list \<Rightarrow> card list" where
  "sortHand h = sort_key cardKey h"

text \<open>
  \<open>drawCards(num, silent)\<close>. The messages it sends are not part of the model, so
  \<open>silent\<close> has no effect here and is left out.
\<close>

definition drawCards :: "(nat \<Rightarrow> nat) \<Rightarrow> nat \<Rightarrow> game \<Rightarrow> unit outcome" where
  "drawCards rnd num g =
     (let (drawn, rest) = drawLoop rnd num (discarded g);
          g1 = g\<lparr>discarded := rest\<rparr>
      in case playerAt g1 (turn g1) of
           None \<Rightarrow> Throw g1
         | Some p \<Rightarrow>
             (let h = drawn @ hand p;
                  h' = (if \<not> npc p then sortHand h else h)
              in Return () (setPlayer (turn g1) (p\<lparr>hand := h', calledUno := False\<rparr>) g1)))"

section \<open>Turns\<close>

text \<open>
  The arithmetic of \<open>nextTurn\<close> on the index: add the direction, wrap below 0 to the last
  player, wrap above the last player to 0.
\<close>

definition advance :: "game \<Rightarrow> int \<Rightarrow> int" where
  "advance g t0 =
     (let n = int (length (players g));
          t1 = t0 + direction g;
          t2 = (if t1 < 0 then n - 1 else t1)
      in if t2 > n - 1 then 0 else t2)"

text \<open>\<open>nextTurn(skip)\<close>; \<open>r\<close> is the sample for the random first player.\<close>

definition nextTurn :: "nat \<Rightarrow> bool \<Rightarrow> game \<Rightarrow> unit outcome" where
  "nextTurn r skip g =
     (if turn g > -1 \<and> playerAt g (turn g) = None then Throw g
      else
        let t0 = (if turn g = -1 then int (randomIndex r (length (players g))) else turn g);
            t3 = advance g t0;
            g1 = g\<lparr>turn := t3\<rparr>
        in case playerAt g1 t3 of
             None \<Rightarrow> Throw g1
           | Some p \<Rightarrow>
               if skip then Return () (say [Skipping (ident p)] g1)
               else Return () (say (NextTurn (ident p) # (if npc p then [PlayTimer] else [])) g1))"

text \<open>\<open>drawAndSkip(num)\<close>.\<close>

definition drawAndSkip :: "(nat \<Rightarrow> nat) \<Rightarrow> nat \<Rightarrow> game \<Rightarrow> unit outcome" where
  "drawAndSkip rnd num g =
     (case drawCards rnd num g of
        Throw g1 \<Rightarrow> Throw g1
      | Return u g1 \<Rightarrow> nextTurn (rnd num) False g1)"

text \<open>
  \<open>callUno(caller)\<close>, in the three steps of the source. First the call of the current
  player who holds two cards; \<open>None\<close> when \<open>players[turn]\<close> is \<open>undefined\<close> and reading its
  id throws.
\<close>

definition ownCall :: "string \<Rightarrow> game \<Rightarrow> game option" where
  "ownCall caller g =
     (case playerAt g (turn g) of
        None \<Rightarrow> None
      | Some cur \<Rightarrow>
          Some (if ident cur = caller \<and> \<not> calledUno cur \<and> length (hand cur) = 2
                then say [UnoCalled (ident cur)]
                       (setPlayer (turn g) (cur\<lparr>calledUno := True\<rparr>) g)
                else g))"

text \<open>Then, inside \<open>if (previousTurn > -1)\<close>, the late call of the previous player who holds
  one card.\<close>

definition lateCall :: "string \<Rightarrow> game \<Rightarrow> game option" where
  "lateCall caller g =
     (case playerAt g (previousTurn g) of
        None \<Rightarrow> None
      | Some prev \<Rightarrow>
          Some (if ident prev = caller \<and> \<not> calledUno prev \<and> length (hand prev) = 1
                then say [UnoCalled (ident prev)]
                       (setPlayer (previousTurn g) (prev\<lparr>calledUno := True\<rparr>) g)
                else g))"

text \<open>Last the penalty: the previous player who holds one card and has not called draws
  two cards, with \<open>turn\<close> set to that player for the draw and set back afterwards.\<close>

definition penalty :: "(nat \<Rightarrow> nat) \<Rightarrow> game \<Rightarrow> unit outcome" where
  "penalty rnd g =
     (case playerAt g (previousTurn g) of
        None \<Rightarrow> Throw g
      | Some prev \<Rightarrow>
          if \<not> calledUno prev \<and> length (hand prev) = 1 then
            (let g1 = say [ForgotUno (ident prev)] g;
                 tmp = turn g1
             in (case drawCards rnd 2 (g1\<lparr>turn := previousTurn g1\<rparr>) of
                   Throw g2 \<Rightarrow> Throw g2
                 | Return u g2 \<Rightarrow> Return () (g2\<lparr>turn := tmp\<rparr>)))
          else Return () g)"

definition callUno :: "(nat \<Rightarrow> nat) \<Rightarrow> string \<Rightarrow> game \<Rightarrow> unit outcome" where
  "callUno rnd caller g =
     (case ownCall caller g of
        None \<Rightarrow> Throw g
      | Some g1 \<Rightarrow>
          if previousTurn g1 > -1 then
            (case lateCall caller g1 of
               None \<Rightarrow> Throw g1
             | Some g2 \<Rightarrow> penalty rnd g2)
          else Return () g1)"

text \<open>\<open>endGame()\<close>.\<close>

definition endGame :: "game \<Rightarrow> game" where
  "endGame g =
     (say [SetupTimer] g)\<lparr>
        started := False,
        turn := -1,
        discarded := discarded g @ concat (map hand (players g)),
        players := map (\<lambda>p. p\<lparr>hand := []\<rparr>) (players g)\<rparr>"

section \<open>Playing a card\<close>

text \<open>
  What \<open>playCard\<close> gets as \<open>text\<close>, seen through the tests it makes: nothing or blanks,
  a text that \<open>parseToCard\<close> rejects, or a text that it parses to a card. The regular
  expressions of \<open>parseToCard\<close> are not part of the model.
\<close>

datatype play_text = NoText | Unparsable | Parsed card

text \<open>\<open>xs.findIndex(P)\<close>.\<close>

fun findIndex :: "('a \<Rightarrow> bool) \<Rightarrow> 'a list \<Rightarrow> int" where
  "findIndex P [] = -1"
| "findIndex P (x # xs) =
     (if P x then 0 else (let r = findIndex P xs in if r < 0 then -1 else r + 1))"

text \<open>The colors an autonomous player holds, each once, in the order of the hand.\<close>

definition handColors :: "card list \<Rightarrow> color list" where
  "handColors h =
     foldl (\<lambda>acc el. if color el \<noteq> NONE \<and> color el \<notin> set acc then acc @ [color el] else acc) [] h"

text \<open>
  The search of an autonomous player: \<open>i = hand.length; do selected = --i; while
  (selected >= 0 && !checkCard(hand[selected]))\<close>. The third argument is \<open>i\<close>; the result is
  \<open>selected\<close>, or \<open>None\<close> when \<open>checkCard\<close> throws.
\<close>

fun scanDown :: "card list \<Rightarrow> card option \<Rightarrow> nat \<Rightarrow> int option" where
  "scanDown h t 0 = Some (-1)"
| "scanDown h t (Suc i) =
     (case checkCard (h ! i) t of
        None \<Rightarrow> None
      | Some ok \<Rightarrow> if ok then Some (int i) else scanDown h t i)"

text \<open>
  The end of \<open>playCard\<close>, after the win test: \<open>previousTurn = turn\<close>, the effects of the
  card and the next turn. A Reverse flips the direction; \<open>skipFlag\<close> is the value of
  \<open>skipping || card.face & SKIP_EFFECT\<close>, where \<open>skipping\<close> is set by a Reverse among
  two players; \<open>forcedDraws\<close> are the draws of a DrawTwo and of a DrawFour.
\<close>

definition applyReverse :: "card \<Rightarrow> game \<Rightarrow> game" where
  "applyReverse c g =
     (if face c AND REVERSE_EFFECT \<noteq> 0 then g\<lparr>direction := direction g * (-1)\<rparr> else g)"

definition skipFlag :: "card \<Rightarrow> game \<Rightarrow> bool" where
  "skipFlag c g =
     ((face c AND REVERSE_EFFECT \<noteq> 0 \<and> length (players g) = 2) \<or>
      face c AND SKIP_EFFECT \<noteq> 0)"

definition forcedDraws :: "(nat \<Rightarrow> nat) \<Rightarrow> card \<Rightarrow> game \<Rightarrow> unit outcome" where
  "forcedDraws rnd c g =
     (case (if face c AND DRAW_TWO_EFFECT \<noteq> 0
            then drawCards (\<lambda>k. rnd (4 + k)) 2 g else Return () g) of
        Throw g1 \<Rightarrow> Throw g1
      | Return u g1 \<Rightarrow>
          (if face c AND DRAW_FOUR_EFFECT \<noteq> 0
           then drawCards (\<lambda>k. rnd (6 + k)) 4 g1 else Return () g1))"

definition resolveEffects :: "(nat \<Rightarrow> nat) \<Rightarrow> card \<Rightarrow> game \<Rightarrow> bool option outcome" where
  "resolveEffects rnd c g =
     (let g1 = applyReverse c (g\<lparr>previousTurn := turn g\<rparr>)
      in case nextTurn (rnd 3) (skipFlag c g1) g1 of
           Throw g2 \<Rightarrow> Throw g2
         | Return u g2 \<Rightarrow>
             (case forcedDraws rnd c g2 of
                Throw g3 \<Rightarrow> Throw g3
              | Return u g3 \<Rightarrow>
                  if skipFlag c g1 then
                    (case nextTurn (rnd 10) False g3 of
                       Throw g4 \<Rightarrow> Throw g4
                     | Return u g4 \<Rightarrow> Return (Some False) g4)
                  else Return (Some False) g3))"

text \<open>
  The array \<open>hand\<close> of \<open>playCard\<close>: the pool before the first turn, else the hand of the
  current player.
\<close>

definition handInPlay :: "game \<Rightarrow> card list" where
  "handInPlay g =
     (if turn g = -1 then discarded g
      else case playerAt g (turn g) of None \<Rightarrow> [] | Some p \<Rightarrow> hand p)"

definition setHandInPlay :: "card list \<Rightarrow> game \<Rightarrow> game" where
  "setHandInPlay h g =
     (if turn g = -1 then g\<lparr>discarded := h\<rparr>
      else case playerAt g (turn g) of
             None \<Rightarrow> g
           | Some p \<Rightarrow> setPlayer (turn g) (p\<lparr>hand := h\<rparr>) g)"

text \<open>
  The second half of \<open>playCard\<close>, from \<open>hand.splice(selected, 1)\<close> on. In \<open>placeCard\<close>
  the card leaves the hand, the old top card goes to the pool, the card becomes the top
  card and takes the chosen color (\<open>paint\<close>: \<open>if (color) card.color = color\<close>). Then an
  empty hand ends the game, else the effects are resolved.
\<close>

definition paint :: "color option \<Rightarrow> card \<Rightarrow> card" where
  "paint col c =
     (case col of
        None \<Rightarrow> c
      | Some k \<Rightarrow> if k \<noteq> NONE then c\<lparr>color := k\<rparr> else c)"

definition placeCard :: "nat \<Rightarrow> color option \<Rightarrow> game \<Rightarrow> game" where
  "placeCard selected col g =
     (let c = handInPlay g ! selected;
          g1 = setHandInPlay (splice1 selected (handInPlay g)) g;
          g2 = (case topCard g1 of
                  None \<Rightarrow> g1
                | Some t \<Rightarrow> g1\<lparr>discarded := discarded g1 @ [t]\<rparr>)
      in g2\<lparr>topCard := Some (paint col c)\<rparr>)"

definition commitCard :: "(nat \<Rightarrow> nat) \<Rightarrow> nat \<Rightarrow> color option \<Rightarrow> game \<Rightarrow> bool option outcome" where
  "commitCard rnd selected col g =
     (let c = paint col (handInPlay g ! selected);
          g1 = placeCard selected col g
      in if length (handInPlay g1) = 0 then
           (case playerAt g1 (turn g1) of
              None \<Rightarrow> Throw g1
            | Some p \<Rightarrow>
                (let g2 = say [Winner (ident p)] g1
                 in Return (Some True) (if npc p then endGame g2 else g2)))
         else resolveEffects rnd c g1)"

text \<open>
  The first half of \<open>playCard\<close> ends either with an index into \<open>hand\<close> and perhaps a
  color, or with the result of the whole call.
\<close>

datatype selection = Chosen nat "color option" game | Stop "bool option outcome"

definition selectFirst :: "(nat \<Rightarrow> nat) \<Rightarrow> game \<Rightarrow> selection" where
  "selectFirst rnd g =
     (let selected = randomIndex (rnd 0) (length (discarded g))
      in if \<not> selected < length (discarded g) then Stop (Throw g)
         else Chosen selected
                (if face (discarded g ! selected) AND WILD_EFFECT \<noteq> 0
                 then Some (randomColor (rnd 1)) else None) g)"

text \<open>
  An autonomous player first looks at the previous player: the condition under which it
  calls for that player, \<open>None\<close> when \<open>players[previousTurn]\<close> is \<open>undefined\<close>.
\<close>

definition wantsCatch :: "nat \<Rightarrow> game \<Rightarrow> bool option" where
  "wantsCatch r g =
     (if previousTurn g > -1 then
        (case playerAt g (previousTurn g) of
           None \<Rightarrow> None
         | Some q \<Rightarrow> Some (\<not> calledUno q \<and> length (hand q) = 1 \<and> chance r))
      else Some False)"

text \<open>The color an autonomous player gives a wild card.\<close>

definition npcColor :: "nat \<Rightarrow> card list \<Rightarrow> color" where
  "npcColor r h =
     (if length (handColors h) = 0 then randomColor r
      else handColors h ! randomIndex r (length (handColors h)))"

definition selectNPC :: "(nat \<Rightarrow> nat) \<Rightarrow> player \<Rightarrow> game \<Rightarrow> selection" where
  "selectNPC rnd p g =
     (case wantsCatch (rnd 0) g of
        None \<Rightarrow> Stop (Throw g)
      | Some catch \<Rightarrow>
          if catch then
            (case callUno (\<lambda>k. rnd (4 + k)) (ident p) g of
               Throw g1 \<Rightarrow> Stop (Throw g1)
             | Return u g1 \<Rightarrow> Stop (Return None (say [PlayTimer] g1)))
          else
            (case scanDown (hand p) (topCard g) (length (hand p)) of
               None \<Rightarrow> Stop (Throw g)
             | Some selected \<Rightarrow>
                 if selected < 0 then
                   (case drawAndSkip (\<lambda>k. rnd (4 + k)) 1 g of
                      Throw g1 \<Rightarrow> Stop (Throw g1)
                    | Return u g1 \<Rightarrow> Stop (Return (Some False) g1))
                 else
                   Chosen (nat selected)
                     (if face (hand p ! nat selected) AND WILD_EFFECT \<noteq> 0
                      then Some (npcColor (rnd 1) (hand p)) else None)
                     (if length (hand p) = 2 \<and> chance (rnd 2)
                      then say [CallTimer (ident p)] g else g)))"

text \<open>
  The test by which a human play is looked up in the hand:
  \<open>parsed.face == el.face && (parsed.face & WILD_EFFECT || parsed.color == el.color)\<close>.
\<close>

definition sameCard :: "card \<Rightarrow> card \<Rightarrow> bool" where
  "sameCard parsed el =
     (face parsed = face el \<and> (face parsed AND WILD_EFFECT \<noteq> 0 \<or> color parsed = color el))"

definition selectHuman :: "play_text \<Rightarrow> player \<Rightarrow> game \<Rightarrow> selection" where
  "selectHuman text p g =
     (case text of
        NoText \<Rightarrow> Stop (Return (Some False) (say [Refused NoCardGiven] g))
      | Unparsable \<Rightarrow> Stop (Return (Some False) (say [Refused UnknownCard] g))
      | Parsed parsed \<Rightarrow>
          if face parsed AND WILD_EFFECT \<noteq> 0 \<and> color parsed = NONE then
            Stop (Return (Some False) (say [Refused ColorNeeded] g))
          else
            (case topCard g of
               None \<Rightarrow> Stop (Throw g)
             | Some t \<Rightarrow>
                 if \<not> matchesTop parsed t then
                   Stop (Return (Some False) (say [Refused NotValid] g))
                 else
                   (let selected = findIndex (sameCard parsed) (hand p)
                    in if selected < 0 then
                         Stop (Return (Some False) (say [Refused NotHeld] g))
                       else
                         Chosen (nat selected)
                           (if face parsed AND WILD_EFFECT \<noteq> 0 then Some (color parsed) else None)
                           g)))"

definition selectCard :: "(nat \<Rightarrow> nat) \<Rightarrow> play_text \<Rightarrow> game \<Rightarrow> selection" where
  "selectCard rnd text g =
     (if turn g = -1 then selectFirst rnd g
      else case playerAt g (turn g) of
             None \<Rightarrow> Stop (Throw g)
           | Some p \<Rightarrow> if npc p then selectNPC rnd p g else selectHuman text p g)"

text \<open>\<open>playCard(text)\<close>: \<open>true\<close> when the game has ended, \<open>false\<close> when it goes on, and
  no value when an autonomous player called first and will play later.\<close>

definition playCard :: "(nat \<Rightarrow> nat) \<Rightarrow> play_text \<Rightarrow> game \<Rightarrow> bool option outcome" where
  "playCard rnd text g =
     (case selectCard rnd text g of
        Stop r \<Rightarrow> r
      | Chosen selected col g1 \<Rightarrow> commitCard rnd selected col g1)"

section \<open>Players joining and leaving, start of the game\<close>

text \<open>
  The argument of \<open>removePlayer\<close>: an id, or an object (a guild member or a player) that
  has one.
\<close>

datatype target = BareId string | Member string

text \<open>
  After \<open>if (typeof p === 'object') p = p.id\<close> the variable \<open>p\<close> holds an id, a string,
  and the guard \<open>p.id == maker.id\<close> reads the property \<open>id\<close> of that string: there is
  none, the value is \<open>undefined\<close>.
\<close>

definition idOfString :: "string \<Rightarrow> string option" where
  "idOfString s = None"

text \<open>\<open>removePlayer(p)\<close>; \<open>r\<close> is the sample that \<open>nextTurn\<close> may use.\<close>

definition removePlayer :: "nat \<Rightarrow> target \<Rightarrow> game \<Rightarrow> unit outcome" where
  "removePlayer r p g =
     (let p1 = (case p of Member i \<Rightarrow> i | BareId i \<Rightarrow> i)
      in if p1 = [] then Return () g
         else if length (players g) = 0 \<or> idOfString p1 = Some (maker g) then Return () g
         else
           (let index = findIndex (\<lambda>pl. ident pl = p1) (players g)
            in if index > -1 then
                 (let g1 = g\<lparr>discarded := discarded g @ hand (players g ! nat index),
                              players := splice1 (nat index) (players g)\<rparr>
                  in if turn g1 = index then nextTurn r False g1 else Return () g1)
               else Return () g))"

definition maxPlayerCount :: nat where
  "maxPlayerCount = 10"

text \<open>\<open>addPlayer(p)\<close> once the channels exist; \<open>isBot\<close> is \<open>p.user.bot\<close>.\<close>

definition addPlayer :: "string \<Rightarrow> bool \<Rightarrow> game \<Rightarrow> bool \<times> game" where
  "addPlayer i isBot g =
     (if length (players g) \<ge> maxPlayerCount then (False, g)
      else (True, g\<lparr>players := players g @
                       [\<lparr>ident = i, npc = isBot, hand = [], calledUno = False\<rparr>]\<rparr>))"

text \<open>The variables of a new \<open>Uno.Game\<close>.\<close>

definition newGame :: "string \<Rightarrow> game" where
  "newGame mk =
     \<lparr>players = [], discarded = getHand, turn = -1, previousTurn = -1, topCard = None,
      direction = 1, started = False, maker = mk, announced = []\<rparr>"

text \<open>
  The loop of \<open>startGame\<close>, \<open>for (turn = 0; turn < players.length; turn++)\<close>, from the
  current value of \<open>turn\<close>; the first argument gives the samples for each player, the
  second is the number of rounds left.
\<close>

fun dealLoop :: "(nat \<Rightarrow> nat \<Rightarrow> nat) \<Rightarrow> nat \<Rightarrow> game \<Rightarrow> unit outcome" where
  "dealLoop rnds 0 g = Return () g"
| "dealLoop rnds (Suc k) g =
     (case playerAt g (turn g) of
        None \<Rightarrow> Throw g
      | Some p \<Rightarrow>
          (case drawCards (rnds (nat (turn g))) 7 (setPlayer (turn g) (p\<lparr>hand := []\<rparr>) g) of
             Throw g1 \<Rightarrow> Throw g1
           | Return u g1 \<Rightarrow> dealLoop rnds k (g1\<lparr>turn := turn g1 + 1\<rparr>)))"

text \<open>\<open>startGame()\<close>.\<close>

definition startGame :: "(nat \<Rightarrow> nat \<Rightarrow> nat) \<Rightarrow> (nat \<Rightarrow> nat) \<Rightarrow> game \<Rightarrow> bool option outcome" where
  "startGame rnds rnd g =
     (case dealLoop rnds (length (players g)) (g\<lparr>turn := 0\<rparr>) of
        Throw g1 \<Rightarrow> Throw g1
      | Return u g1 \<Rightarrow> playCard rnd NoText (g1\<lparr>turn := -1, started := True\<rparr>))"

section \<open>Counting cards\<close>

text \<open>The cards in all hands, in the pool and on top: their number, and the cards.\<close>

definition totalCards :: "game \<Rightarrow> nat" where
  "totalCards g =
     sum_list (map (\<lambda>p. length (hand p)) (players g)) + length (discarded g) +
     (case topCard g of None \<Rightarrow> 0 | Some t \<Rightarrow> 1)"

definition allCards :: "game \<Rightarrow> card list" where
  "allCards g =
     (case topCard g of None \<Rightarrow> [] | Some t \<Rightarrow> [t]) @ concat (map hand (players g)) @
     discarded g"

definition handsEmpty :: "game \<Rightarrow> bool" where
  "handsEmpty g = (\<forall>p \<in> set (players g). hand p = [])"


section \<open>Example states\<close>

text \<open>Small tables on which the theorems below are run.\<close>

definition human :: "string \<Rightarrow> card list \<Rightarrow> player" where
  "human i h = \<lparr>ident = i, npc = False, hand = h, calledUno = False\<rparr>"

definition robot :: "string \<Rightarrow> card list \<Rightarrow> player" where
  "robot i h = \<lparr>ident = i, npc = True, hand = h, calledUno = False\<rparr>"

definition table :: "player list \<Rightarrow> card list \<Rightarrow> card \<Rightarrow> int \<Rightarrow> int \<Rightarrow> game" where
  "table ps pool t cur prev =
     \<lparr>players = ps, discarded = pool, turn = cur, previousTurn = prev, topCard = Some t,
      direction = 1, started = True, maker = ''ann'', announced = []\<rparr>"

text \<open>One card left in the pool, a wild card that was played as green.\<close>

definition lowPool :: game where
  "lowPool = table [human ''ann'' [Card FIVE RED], robot ''hal'' [Card SIX RED]]
               [Card WILD GREEN] (Card TWO RED) 0 1"

text \<open>Samples of \<open>Math.random\<close> that always select the first, or the second, index.\<close>

definition zeros :: "nat \<Rightarrow> nat" where
  "zeros k = 0"

definition ones :: "nat \<Rightarrow> nat" where
  "ones k = 1"

definition handSizes :: "game \<Rightarrow> nat list" where
  "handSizes g = map (\<lambda>p. length (hand p)) (players g)"

text \<open>Ann has played down to one card without calling; it is Bob's turn.\<close>

definition oneLeft :: game where
  "oneLeft = table [human ''ann'' [Card FIVE RED],
                    human ''bob'' [Card SIX RED, Card SEVEN BLUE, Card EIGHT BLUE]]
               [Card ONE RED, Card TWO BLUE, Card THREE GREEN] (Card NINE RED) 1 0"

text \<open>Ann holds a single card, a Reverse, and plays it.\<close>

definition lastReverse :: game where
  "lastReverse = table [human ''ann'' [Card REVERSE RED],
                        human ''bob'' [Card SIX RED, Card SEVEN BLUE, Card EIGHT BLUE]]
                   [Card ONE RED, Card TWO BLUE] (Card NINE RED) 0 1"

text \<open>Ann holds a Reverse and a DrawTwo among other cards; two players.\<close>

definition midGame :: game where
  "midGame = table [human ''ann'' [Card THREE GREEN, Card REVERSE RED, Card DRAW_TWO RED],
                    robot ''hal'' [Card SIX BLUE, Card SEVEN BLUE, Card EIGHT BLUE]]
               [Card ONE RED, Card TWO BLUE, Card FOUR GREEN] (Card NINE RED) 0 1"




text \<open>
  A wild card goes round: Ann plays it as green, Bob covers it with a green 7, and Ann
  draws it back from the pool.
\<close>

definition wildTable :: game where
  "wildTable = table [human ''ann'' [Card FIVE RED, Card SIX RED, Card WILD NONE],
                      human ''bob'' [Card SEVEN GREEN, Card EIGHT GREEN, Card NINE GREEN]]
                 [] (Card TWO RED) 0 (-1)"

definition wildPlayed :: game where
  "wildPlayed = stateOf (playCard zeros (Parsed (Card WILD GREEN)) wildTable)"

definition wildCovered :: game where
  "wildCovered = stateOf (playCard zeros (Parsed (Card SEVEN GREEN)) wildPlayed)"

definition wildDrawn :: game where
  "wildDrawn = stateOf (drawAndSkip ones 1 wildCovered)"

text \<open>
  A game of three with the 108 cards of the deck. Ann, the creator, has just played down
  to one card; the turn has come to Hal, an autonomous player (a bot account that was
  invited), whose timer is pending. Then: Ann removes Hal (\<open>uno kick\<close>, which passes the
  member object), the turn comes back to Ann, who plays the last card and wins;
  \<open>endGame\<close> follows; the timer that was set for Hal fires and runs \<open>playCard()\<close> in the
  lobby; Ann starts the next game.
\<close>

definition staleStart :: game where
  "staleStart =
     \<lparr>players = [human ''ann'' [Card ZERO GREEN],
                 robot ''hal'' [Card ZERO YELLOW, Card ZERO BLUE, Card ONE RED, Card ONE RED,
                                Card ONE GREEN, Card ONE GREEN, Card ONE YELLOW],
                 human ''bob'' [Card ONE YELLOW, Card ONE BLUE, Card ONE BLUE, Card TWO RED,
                                Card TWO RED]],
      discarded = drop 76 getHand @ take 62 (drop 14 getHand),
      turn = 1, previousTurn = 0, topCard = Some (Card ZERO RED),
      direction = 1, started = True, maker = ''ann'',
      announced = [NextTurn ''hal'', PlayTimer]\<rparr>"

definition afterKick :: game where
  "afterKick = stateOf (removePlayer 0 (Member ''hal'') staleStart)"

definition afterWin :: game where
  "afterWin = stateOf (playCard zeros (Parsed (Card ZERO GREEN)) afterKick)"

definition lobbyAgain :: game where
  "lobbyAgain = endGame afterWin"

definition afterTimer :: game where
  "afterTimer = stateOf (playCard zeros NoText lobbyAgain)"

definition restarted :: game where
  "restarted = stateOf (startGame (\<lambda>i. zeros) zeros afterTimer)"


section \<open>Auxiliary facts\<close>

lemmas face_defs =
  EFFECT_MASK_def BASE_MASK_def WILD_EFFECT_def SKIP_EFFECT_def REVERSE_EFFECT_def
  DRAW_TWO_EFFECT_def DRAW_FOUR_EFFECT_def SKIP_def DRAW_TWO_def REVERSE_def WILD_def
  DRAW_FOUR_def ZERO_def ONE_def TWO_def THREE_def FOUR_def FIVE_def SIX_def SEVEN_def
  EIGHT_def NINE_def


lemma replicate_two: "replicate 2 x = [x, x]"
  by (simp add: numeral_2_eq_2)

lemma replicate_four: "replicate 4 x = [x, x, x, x]"
  by (simp add: numeral_eq_Suc)

lemma base_rank_inj: "inj_on (\<lambda>f. f AND BASE_MASK) (set cardFaces)"
proof -
  have "distinct (map (\<lambda>f. f AND BASE_MASK) cardFaces)"
    by (simp add: cardFaces_def face_defs)
  then show ?thesis by (simp add: distinct_map)
qed

lemma base_rank_distinct:
  "f1 \<in> set cardFaces \<Longrightarrow> f2 \<in> set cardFaces \<Longrightarrow>
   (f1 AND BASE_MASK = f2 AND BASE_MASK) = (f1 = f2)"
  using base_rank_inj by (auto dest: inj_onD)

lemma matchesTop_checkCard:
  "face c \<in> set cardFaces \<Longrightarrow> face t \<in> set cardFaces \<Longrightarrow>
   matchesTop c t = (checkCard c (Some t) = Some True)"
  by (simp add: matchesTop_def checkCard_def base_rank_distinct)

lemma say_neq: "e1 \<noteq> e2 \<Longrightarrow> say [e1] g \<noteq> say [e2] g"
proof
  assume "e1 \<noteq> e2" and "say [e1] g = say [e2] g"
  then have "announced (say [e1] g) = announced (say [e2] g)" by simp
  then show False using \<open>e1 \<noteq> e2\<close> by (simp add: say_def)
qed

lemma randomIndex_less: "0 < n \<Longrightarrow> randomIndex r n < n"
  by (simp add: randomIndex_def)

lemma mset_splice1: "i < length xs \<Longrightarrow> add_mset (xs ! i) (mset (splice1 i xs)) = mset xs"
proof -
  assume lt: "i < length xs"
  then have "xs = take i xs @ xs ! i # drop (Suc i) xs" by (rule id_take_nth_drop)
  then have "mset xs = mset (take i xs @ xs ! i # drop (Suc i) xs)" by simp
  then show ?thesis by (simp add: splice1_def)
qed

lemma length_splice1: "i < length xs \<Longrightarrow> length (splice1 i xs) = length xs - 1"
  by (auto simp: splice1_def)

lemma drawLoop_length:
  "length (fst (drawLoop rnd n pool)) = min n (length pool) \<and>
   length (snd (drawLoop rnd n pool)) = length pool - min n (length pool)"
proof (induction n arbitrary: rnd pool)
  case 0
  then show ?case by simp
next
  case (Suc n)
  show ?case
  proof (cases "pool = []")
    case True
    then show ?thesis by simp
  next
    case False
    then have pos: "0 < length pool" by simp
    then have lt: "randomIndex (rnd 0) (length pool) < length pool"
      by (simp add: randomIndex_less)
    from Suc.IH [of "\<lambda>k. rnd (Suc k)" "splice1 (randomIndex (rnd 0) (length pool)) pool"]
    show ?thesis using False lt pos
      by (auto simp: Let_def split_beta length_splice1 min_def)
  qed
qed

lemma drawLoop_mset:
  "mset (fst (drawLoop rnd n pool)) + mset (map resetWild (snd (drawLoop rnd n pool))) =
   mset (map resetWild pool)"
proof (induction n arbitrary: rnd pool)
  case 0
  then show ?case by simp
next
  case (Suc n)
  show ?case
  proof (cases "pool = []")
    case True
    then show ?thesis by simp
  next
    case False
    then have lt: "randomIndex (rnd 0) (length pool) < length pool"
      by (simp add: randomIndex_less)
    let ?i = "randomIndex (rnd 0) (length pool)"
    have "mset (map resetWild pool) = image_mset resetWild (mset pool)" by simp
    also have "\<dots> = image_mset resetWild (add_mset (pool ! ?i) (mset (splice1 ?i pool)))"
      using mset_splice1 [OF lt] by simp
    finally have e: "mset (map resetWild pool) =
       add_mset (resetWild (pool ! ?i)) (mset (map resetWild (splice1 ?i pool)))" by simp
    from Suc.IH [of "\<lambda>k. rnd (Suc k)" "splice1 ?i pool"]
    show ?thesis using False e
      by (auto simp: Let_def split_beta)
  qed
qed

lemma drawLoop_wild:
  "c \<in> set (fst (drawLoop rnd n pool)) \<Longrightarrow> face c AND WILD_EFFECT \<noteq> 0 \<Longrightarrow> color c = NONE"
proof (induction n arbitrary: rnd pool)
  case 0
  then show ?case by simp
next
  case (Suc n)
  then show ?case
    by (auto simp: Let_def split_beta resetWild_def split: if_splits)
qed

lemma playerAt_upd [simp]:
  "playerAt (g\<lparr>discarded := d\<rparr>) i = playerAt g i"
  "playerAt (g\<lparr>turn := t\<rparr>) i = playerAt g i"
  "playerAt (g\<lparr>previousTurn := t\<rparr>) i = playerAt g i"
  "playerAt (g\<lparr>topCard := c\<rparr>) i = playerAt g i"
  "playerAt (g\<lparr>direction := t\<rparr>) i = playerAt g i"
  "playerAt (g\<lparr>started := b\<rparr>) i = playerAt g i"
  "playerAt (g\<lparr>announced := es\<rparr>) i = playerAt g i"
  "playerAt (say es' g) i = playerAt g i"
  by (simp_all add: playerAt_def say_def)

lemma playerAt_SomeD:
  "playerAt g i = Some p \<Longrightarrow> 0 \<le> i \<and> nat i < length (players g) \<and> p = players g ! nat i"
  by (auto simp: playerAt_def split: if_splits)

lemma playerAt_setPlayer:
  "playerAt g i = Some p \<Longrightarrow> playerAt (setPlayer i q g) i = Some q"
  by (auto simp: playerAt_def setPlayer_def split: if_splits)

lemma playerAt_setPlayer_other:
  "j \<noteq> i \<Longrightarrow> 0 \<le> i \<Longrightarrow> playerAt (setPlayer i q g) j = playerAt g j"
  by (auto simp: playerAt_def setPlayer_def)

text \<open>The effect of \<open>drawCards\<close> when there is a current player.\<close>

lemma drawCards_Return:
  assumes "playerAt g (turn g) = Some p"
  shows "drawCards rnd n g =
    Return () (g\<lparr>discarded := snd (drawLoop rnd n (discarded g)),
                 players := (players g)[nat (turn g) :=
                   p\<lparr>hand := (if \<not> npc p then sortHand (fst (drawLoop rnd n (discarded g)) @ hand p)
                                else fst (drawLoop rnd n (discarded g)) @ hand p),
                      calledUno := False\<rparr>]\<rparr>)"
  using assms by (simp add: drawCards_def split_beta setPlayer_def Let_def)

lemma sum_hands_update:
  "i < length ps \<Longrightarrow>
   sum_list (map (\<lambda>p. length (hand p)) (ps[i := q])) + length (hand (ps ! i)) =
   sum_list (map (\<lambda>p. length (hand p)) ps) + length (hand q)"
proof (induction ps arbitrary: i)
  case Nil
  then show ?case by simp
next
  case (Cons a ps)
  then show ?case by (cases i) auto
qed

lemma totalCards_drawCards:
  assumes "playerAt g (turn g) = Some p"
  shows "totalCards (stateOf (drawCards rnd n g)) = totalCards g"
proof -
  from assms have i: "nat (turn g) < length (players g)" and p: "p = players g ! nat (turn g)"
    by (auto dest: playerAt_SomeD)
  let ?q = "p\<lparr>hand := (if \<not> npc p then sortHand (fst (drawLoop rnd n (discarded g)) @ hand p)
                                else fst (drawLoop rnd n (discarded g)) @ hand p),
                      calledUno := False\<rparr>"
  have lq: "length (hand ?q) = min n (length (discarded g)) + length (hand p)"
    by (simp add: sortHand_def drawLoop_length)
  have "sum_list (map (\<lambda>p. length (hand p)) ((players g)[nat (turn g) := ?q])) + length (hand p) =
        sum_list (map (\<lambda>p. length (hand p)) (players g)) + length (hand ?q)"
    using sum_hands_update [OF i, of ?q] p by simp
  then show ?thesis
    using lq by (simp add: drawCards_Return [OF assms] totalCards_def drawLoop_length)
qed

lemma drawLoop_numeral:
  "drawLoop rnd (numeral k) pool =
     (if length pool = 0 then ([], pool)
      else
        let i = randomIndex (rnd 0) (length pool);
            single = pool ! i;
            rest = splice1 i pool;
            single' = resetWild single;
            (drawn, pool') = drawLoop (\<lambda>k. rnd (Suc k)) (pred_numeral k) rest
        in (single' # drawn, pool'))"
  by (simp add: numeral_eq_Suc)

lemma totalCards_cong:
  "players g' = players g \<Longrightarrow> discarded g' = discarded g \<Longrightarrow> topCard g' = topCard g \<Longrightarrow>
   totalCards g' = totalCards g"
  by (simp add: totalCards_def)

lemma totalCards_upd [simp]:
  "totalCards (g\<lparr>turn := t\<rparr>) = totalCards g"
  "totalCards (g\<lparr>previousTurn := t\<rparr>) = totalCards g"
  "totalCards (g\<lparr>direction := t\<rparr>) = totalCards g"
  "totalCards (g\<lparr>started := b\<rparr>) = totalCards g"
  "totalCards (g\<lparr>announced := es\<rparr>) = totalCards g"
  "totalCards (say es' g) = totalCards g"
  by (simp_all add: totalCards_def say_def)

lemma say_fields [simp]:
  "players (say es g) = players g"
  "discarded (say es g) = discarded g"
  "turn (say es g) = turn g"
  "previousTurn (say es g) = previousTurn g"
  "topCard (say es g) = topCard g"
  "direction (say es g) = direction g"
  "started (say es g) = started g"
  "maker (say es g) = maker g"
  "announced (say es g) = announced g @ es"
  by (simp_all add: say_def)

lemma setPlayer_fields [simp]:
  "players (setPlayer i q g) = (players g)[nat i := q]"
  "discarded (setPlayer i q g) = discarded g"
  "turn (setPlayer i q g) = turn g"
  "previousTurn (setPlayer i q g) = previousTurn g"
  "topCard (setPlayer i q g) = topCard g"
  "direction (setPlayer i q g) = direction g"
  "started (setPlayer i q g) = started g"
  "maker (setPlayer i q g) = maker g"
  "announced (setPlayer i q g) = announced g"
  by (simp_all add: setPlayer_def)

text \<open>What \<open>nextTurn\<close> leaves alone.\<close>

lemma nextTurn_frame:
  "players (stateOf (nextTurn r s g)) = players g \<and>
   discarded (stateOf (nextTurn r s g)) = discarded g \<and>
   topCard (stateOf (nextTurn r s g)) = topCard g \<and>
   started (stateOf (nextTurn r s g)) = started g \<and>
   direction (stateOf (nextTurn r s g)) = direction g \<and>
   previousTurn (stateOf (nextTurn r s g)) = previousTurn g \<and>
   maker (stateOf (nextTurn r s g)) = maker g"
  by (simp add: nextTurn_def Let_def split: option.splits)

lemma totalCards_nextTurn: "totalCards (stateOf (nextTurn r s g)) = totalCards g"
  by (rule totalCards_cong) (simp_all add: nextTurn_frame)

lemma nextTurn_valid:
  "nextTurn r s g = Return u g' \<Longrightarrow> \<exists>p. playerAt g' (turn g') = Some p"
  by (auto simp: nextTurn_def Let_def split: option.splits if_splits)

lemma totalCards_setPlayer:
  assumes "playerAt g i = Some p"
  shows "totalCards (setPlayer i q g) + length (hand p) = totalCards g + length (hand q)"
proof -
  from assms have i: "nat i < length (players g)" and p: "p = players g ! nat i"
    by (auto dest: playerAt_SomeD)
  from sum_hands_update [OF i, of q] p show ?thesis
    by (simp add: totalCards_def)
qed

lemma totalCards_setPlayer_same:
  "playerAt g i = Some p \<Longrightarrow> hand q = hand p \<Longrightarrow> totalCards (setPlayer i q g) = totalCards g"
  using totalCards_setPlayer [of g i p q] by simp

text \<open>What \<open>drawCards\<close> leaves alone.\<close>

lemma drawCards_frame:
  "topCard (stateOf (drawCards rnd n g)) = topCard g \<and>
   started (stateOf (drawCards rnd n g)) = started g \<and>
   turn (stateOf (drawCards rnd n g)) = turn g \<and>
   direction (stateOf (drawCards rnd n g)) = direction g \<and>
   previousTurn (stateOf (drawCards rnd n g)) = previousTurn g \<and>
   maker (stateOf (drawCards rnd n g)) = maker g \<and>
   announced (stateOf (drawCards rnd n g)) = announced g \<and>
   length (players (stateOf (drawCards rnd n g))) = length (players g)"
  by (simp add: drawCards_def Let_def split_beta split: option.splits)

lemma drawCards_returns:
  "playerAt g (turn g) = Some p \<Longrightarrow> \<exists>g'. drawCards rnd n g = Return () g'"
  by (simp add: drawCards_Return)

lemma totalCards_drawAndSkip:
  assumes "playerAt g (turn g) = Some p"
  shows "totalCards (stateOf (drawAndSkip rnd n g)) = totalCards g"
proof -
  from drawCards_returns [OF assms] obtain g' where r: "drawCards rnd n g = Return () g'" by blast
  with totalCards_drawCards [OF assms, of rnd n] have "totalCards g' = totalCards g" by simp
  then show ?thesis by (simp add: drawAndSkip_def r totalCards_nextTurn)
qed

text \<open>The three steps of \<open>callUno\<close> keep the number of cards.\<close>

lemma totalCards_ownCall: "ownCall caller g = Some g1 \<Longrightarrow> totalCards g1 = totalCards g"
  by (auto simp: ownCall_def totalCards_setPlayer_same split: option.splits if_splits)

lemma totalCards_lateCall: "lateCall caller g = Some g1 \<Longrightarrow> totalCards g1 = totalCards g"
  by (auto simp: lateCall_def totalCards_setPlayer_same split: option.splits if_splits)

lemma totalCards_penalty: "totalCards (stateOf (penalty rnd g)) = totalCards g"
proof (cases "playerAt g (previousTurn g)")
  case None
  then show ?thesis by (simp add: penalty_def)
next
  case (Some prev)
  let ?g1 = "(say [ForgotUno (ident prev)] g)\<lparr>turn := previousTurn g\<rparr>"
  have at: "playerAt ?g1 (turn ?g1) = Some prev" using Some by simp
  have t: "totalCards (stateOf (drawCards rnd 2 ?g1)) = totalCards g"
    using totalCards_drawCards [OF at, of rnd 2] by simp
  from drawCards_returns [OF at, of rnd 2] obtain g2 where
    r: "drawCards rnd 2 ?g1 = Return () g2" by blast
  with t have "totalCards g2 = totalCards g" by simp
  then show ?thesis using Some r by (simp add: penalty_def Let_def)
qed

lemma totalCards_callUno: "totalCards (stateOf (callUno rnd caller g)) = totalCards g"
proof (cases "ownCall caller g")
  case None
  then show ?thesis by (simp add: callUno_def)
next
  case (Some g1)
  note t1 = totalCards_ownCall [OF Some]
  show ?thesis
  proof (cases "lateCall caller g1")
    case None
    then show ?thesis using Some t1 by (simp add: callUno_def)
  next
    case (Some g2)
    note t2 = totalCards_lateCall [OF Some]
    show ?thesis
      using \<open>ownCall caller g = Some g1\<close> Some t1 t2
      by (simp add: callUno_def totalCards_penalty)
  qed
qed

lemma totalCards_endGame: "totalCards (endGame g) = totalCards g"
proof -
  have a: "sum_list (map (\<lambda>p. length (hand p)) (map (\<lambda>p. p\<lparr>hand := []\<rparr>) ps)) = 0" for ps :: "player list"
    by (induction ps) simp_all
  have b: "length (concat (map hand ps)) = sum_list (map (\<lambda>p. length (hand p)) ps)" for ps :: "player list"
    by (induction ps) simp_all
  show ?thesis
    by (simp add: endGame_def totalCards_def a b)
qed

lemma findIndex_bounds: "- 1 \<le> findIndex P xs \<and> findIndex P xs < int (length xs)"
  by (induction xs) (auto simp: Let_def)

lemma findIndex_holds: "0 \<le> findIndex P xs \<Longrightarrow> P (xs ! nat (findIndex P xs))"
proof (induction xs)
  case Nil
  then show ?case by simp
next
  case (Cons x xs)
  then show ?case
    by (auto simp: Let_def nat_add_distrib split: if_splits)
qed

lemma sum_hands_splice1:
  assumes "i < length ps"
  shows "sum_list (map (\<lambda>p. length (hand p)) (splice1 i ps)) + length (hand (ps ! i)) =
     sum_list (map (\<lambda>p. length (hand p)) ps)"
proof -
  from assms have "ps = take i ps @ ps ! i # drop (Suc i) ps" by (rule id_take_nth_drop)
  then have "sum_list (map (\<lambda>p. length (hand p)) ps) =
     sum_list (map (\<lambda>p. length (hand p)) (take i ps @ ps ! i # drop (Suc i) ps))" by simp
  then show ?thesis by (simp add: splice1_def)
qed

lemma totalCards_removePlayer: "totalCards (stateOf (removePlayer r p g)) = totalCards g"
proof -
  let ?p1 = "case p of Member i \<Rightarrow> i | BareId i \<Rightarrow> i"
  let ?index = "findIndex (\<lambda>pl. ident pl = ?p1) (players g)"
  let ?g1 = "g\<lparr>discarded := discarded g @ hand (players g ! nat ?index),
               players := splice1 (nat ?index) (players g)\<rparr>"
  have t: "?index > -1 \<Longrightarrow> totalCards ?g1 = totalCards g"
  proof -
    assume "?index > -1"
    with findIndex_bounds [of "\<lambda>pl. ident pl = ?p1" "players g"]
    have "nat ?index < length (players g)" by simp
    from sum_hands_splice1 [OF this] show ?thesis by (simp add: totalCards_def)
  qed
  show ?thesis
    using t by (simp add: removePlayer_def Let_def totalCards_nextTurn)
qed

lemma drawCards_keeps_current:
  "playerAt g (turn g) = Some p \<Longrightarrow> drawCards rnd n g = Return u g' \<Longrightarrow>
   \<exists>p'. playerAt g' (turn g') = Some p'"
  by (auto simp: drawCards_Return playerAt_def split: if_splits)

text \<open>A draw that depends on a bit of the face, as in \<open>forcedDraws\<close>.\<close>

lemma drawIf:
  assumes "playerAt g (turn g) = Some p"
  shows "\<exists>g' p'. (if b then drawCards rnd n g else Return () g) = Return () g' \<and>
           playerAt g' (turn g') = Some p' \<and> totalCards g' = totalCards g \<and>
           started g' = started g"
proof (cases b)
  case False
  then show ?thesis using assms by simp
next
  case True
  from drawCards_returns [OF assms, of rnd n] obtain g' where r: "drawCards rnd n g = Return () g'"
    by blast
  from drawCards_keeps_current [OF assms r] obtain p' where "playerAt g' (turn g') = Some p'"
    by blast
  moreover from totalCards_drawCards [OF assms, of rnd n] r have "totalCards g' = totalCards g"
    by simp
  moreover from drawCards_frame [of rnd n g] r have "started g' = started g" by simp
  ultimately show ?thesis using True r by simp
qed

lemma forcedDraws_keeps:
  assumes "playerAt g (turn g) = Some p"
  shows "\<exists>g' p'. forcedDraws rnd c g = Return () g' \<and>
           playerAt g' (turn g') = Some p' \<and> totalCards g' = totalCards g \<and>
           started g' = started g"
proof -
  from drawIf [OF assms, of "face c AND DRAW_TWO_EFFECT \<noteq> 0" "\<lambda>k. rnd (4 + k)" 2]
  obtain g1 p1 where r1: "(if face c AND DRAW_TWO_EFFECT \<noteq> 0
                    then drawCards (\<lambda>k. rnd (4 + k)) 2 g else Return () g) = Return () g1"
    and a1: "playerAt g1 (turn g1) = Some p1" and t1: "totalCards g1 = totalCards g"
      "started g1 = started g" by blast
  from drawIf [OF a1, of "face c AND DRAW_FOUR_EFFECT \<noteq> 0" "\<lambda>k. rnd (6 + k)" 4]
  obtain g2 p2 where r2: "(if face c AND DRAW_FOUR_EFFECT \<noteq> 0
                    then drawCards (\<lambda>k. rnd (6 + k)) 4 g1 else Return () g1) = Return () g2"
    and a2: "playerAt g2 (turn g2) = Some p2" and t2: "totalCards g2 = totalCards g1"
      "started g2 = started g1" by blast
  have "forcedDraws rnd c g = Return () g2"
    by (simp only: forcedDraws_def r1 r2 outcome.case)
  then show ?thesis using a2 t1 t2 by simp
qed

lemma applyReverse_keeps [simp]:
  "totalCards (applyReverse c g) = totalCards g"
  "started (applyReverse c g) = started g"
  "players (applyReverse c g) = players g"
  "turn (applyReverse c g) = turn g"
  by (simp_all add: applyReverse_def)

lemma resolveEffects_keeps:
  "totalCards (stateOf (resolveEffects rnd c g)) = totalCards g \<and>
   started (stateOf (resolveEffects rnd c g)) = started g"
proof -
  let ?g1 = "applyReverse c (g\<lparr>previousTurn := turn g\<rparr>)"
  let ?s = "skipFlag c ?g1"
  have t1: "totalCards ?g1 = totalCards g" "started ?g1 = started g" by simp_all
  show ?thesis
  proof (cases "nextTurn (rnd 3) ?s ?g1")
    case (Throw g2)
    with totalCards_nextTurn [of "rnd 3" ?s ?g1] nextTurn_frame [of "rnd 3" ?s ?g1] t1
    show ?thesis by (simp add: resolveEffects_def Let_def)
  next
    case (Return u g2)
    with totalCards_nextTurn [of "rnd 3" ?s ?g1] nextTurn_frame [of "rnd 3" ?s ?g1] t1
    have t2: "totalCards g2 = totalCards g" "started g2 = started g" by simp_all
    from nextTurn_valid [OF Return] obtain p2 where a2: "playerAt g2 (turn g2) = Some p2" by blast
    from forcedDraws_keeps [OF a2, of rnd c]
    obtain g3 p3 where r3: "forcedDraws rnd c g2 = Return () g3"
      and t3: "totalCards g3 = totalCards g2" "started g3 = started g2" by blast
    have e: "resolveEffects rnd c g = (if ?s then
                    (case nextTurn (rnd 10) False g3 of
                       Throw g4 \<Rightarrow> Throw g4
                     | Return u g4 \<Rightarrow> Return (Some False) g4)
                  else Return (Some False) g3)"
      by (simp add: resolveEffects_def Let_def Return r3)
    show ?thesis
    proof (cases "nextTurn (rnd 10) False g3")
      case (Throw g4)
      with totalCards_nextTurn [of "rnd 10" False g3] nextTurn_frame [of "rnd 10" False g3]
      show ?thesis using t2 t3 by (simp add: e)
    next
      case (Return u4 g4)
      with totalCards_nextTurn [of "rnd 10" False g3] nextTurn_frame [of "rnd 10" False g3]
      show ?thesis using t2 t3 by (simp add: e)
    qed
  qed
qed

text \<open>Putting the selected card on top moves one card from the hand to the top.\<close>

lemma totalCards_placeCard:
  assumes sel: "selected < length (handInPlay g)"
    and cur: "turn g = -1 \<or> (\<exists>p. playerAt g (turn g) = Some p)"
  shows "totalCards (placeCard selected col g) = totalCards g \<and>
         started (placeCard selected col g) = started g"
proof -
  let ?g1 = "setHandInPlay (splice1 selected (handInPlay g)) g"
  have t1: "totalCards ?g1 + 1 = totalCards g \<and> topCard ?g1 = topCard g \<and> started ?g1 = started g"
  proof (cases "turn g = -1")
    case True
    with sel show ?thesis
      by (simp add: setHandInPlay_def handInPlay_def totalCards_def length_splice1)
  next
    case False
    with cur obtain p where p: "playerAt g (turn g) = Some p" by blast
    with False sel have l: "selected < length (hand p)" by (simp add: handInPlay_def)
    from totalCards_setPlayer [OF p, of "p\<lparr>hand := splice1 selected (hand p)\<rparr>"] l
    show ?thesis using False p by (simp add: setHandInPlay_def handInPlay_def length_splice1)
  qed
  then show ?thesis
    by (cases "topCard g") (auto simp: placeCard_def Let_def totalCards_def)
qed

lemma commitCard_keeps:
  assumes sel: "selected < length (handInPlay g)"
    and cur: "turn g = -1 \<or> (\<exists>p. playerAt g (turn g) = Some p)"
  shows "totalCards (stateOf (commitCard rnd selected col g)) = totalCards g \<and>
         (started g \<longrightarrow> started (stateOf (commitCard rnd selected col g)) \<or>
                          handsEmpty (stateOf (commitCard rnd selected col g)))"
proof -
  note pc = totalCards_placeCard [OF sel cur, of col]
  have he: "handsEmpty (endGame x)" for x
    by (simp add: handsEmpty_def endGame_def)
  show ?thesis
    using pc resolveEffects_keeps [of rnd "paint col (handInPlay g ! selected)" "placeCard selected col g"]
    by (auto simp: commitCard_def Let_def totalCards_endGame he split: option.splits)
qed

text \<open>The search of an autonomous player finds the last playable card.\<close>

lemma scanDown_found:
  "scanDown h t n = Some sel \<Longrightarrow>
   - 1 \<le> sel \<and> sel < int n \<and>
   (0 \<le> sel \<longrightarrow> checkCard (h ! nat sel) t = Some True) \<and>
   (\<forall>j. sel < int j \<and> j < n \<longrightarrow> checkCard (h ! j) t = Some False)"
proof (induction n)
  case 0
  then show ?case by simp
next
  case (Suc n)
  show ?case
  proof (cases "checkCard (h ! n) t")
    case None
    with Suc.prems show ?thesis by simp
  next
    case (Some ok)
    show ?thesis
    proof (cases ok)
      case True
      with Some Suc.prems show ?thesis by auto
    next
      case False
      with Some Suc.prems have "scanDown h t n = Some sel" by simp
      from Suc.IH [OF this] Some False show ?thesis
        by (auto simp: less_Suc_eq)
    qed
  qed
qed

text \<open>What the steps of \<open>callUno\<close> leave alone.\<close>

lemma ownCall_frame:
  "ownCall caller g = Some g1 \<Longrightarrow>
   started g1 = started g \<and> turn g1 = turn g \<and> previousTurn g1 = previousTurn g \<and>
   topCard g1 = topCard g \<and> discarded g1 = discarded g \<and> direction g1 = direction g \<and>
   length (players g1) = length (players g) \<and> map hand (players g1) = map hand (players g)"
  by (auto simp: ownCall_def map_update list_update_same_conv dest!: playerAt_SomeD
      split: option.splits if_splits)

lemma lateCall_frame:
  "lateCall caller g = Some g1 \<Longrightarrow>
   started g1 = started g \<and> turn g1 = turn g \<and> previousTurn g1 = previousTurn g \<and>
   topCard g1 = topCard g \<and> discarded g1 = discarded g \<and> direction g1 = direction g \<and>
   length (players g1) = length (players g) \<and> map hand (players g1) = map hand (players g)"
  by (auto simp: lateCall_def map_update list_update_same_conv dest!: playerAt_SomeD
      split: option.splits if_splits)

lemma penalty_frame:
  "started (stateOf (penalty rnd g)) = started g \<and>
   turn (stateOf (penalty rnd g)) = turn g \<and>
   previousTurn (stateOf (penalty rnd g)) = previousTurn g \<and>
   topCard (stateOf (penalty rnd g)) = topCard g \<and>
   direction (stateOf (penalty rnd g)) = direction g"
proof (cases "playerAt g (previousTurn g)")
  case None
  then show ?thesis by (simp add: penalty_def)
next
  case (Some prev)
  let ?g1 = "(say [ForgotUno (ident prev)] g)\<lparr>turn := previousTurn g\<rparr>"
  have at: "playerAt ?g1 (turn ?g1) = Some prev" using Some by simp
  from drawCards_returns [OF at, of rnd 2] obtain g2 where
    r: "drawCards rnd 2 ?g1 = Return () g2" by blast
  with drawCards_frame [of rnd 2 ?g1] have
    "started g2 = started g \<and> previousTurn g2 = previousTurn g \<and> topCard g2 = topCard g \<and>
     direction g2 = direction g" by simp
  then show ?thesis using Some r by (simp add: penalty_def Let_def)
qed

lemma callUno_frame:
  "started (stateOf (callUno rnd caller g)) = started g \<and>
   turn (stateOf (callUno rnd caller g)) = turn g \<and>
   previousTurn (stateOf (callUno rnd caller g)) = previousTurn g \<and>
   topCard (stateOf (callUno rnd caller g)) = topCard g \<and>
   direction (stateOf (callUno rnd caller g)) = direction g"
proof (cases "ownCall caller g")
  case None
  then show ?thesis by (simp add: callUno_def)
next
  case (Some g1)
  note f1 = ownCall_frame [OF Some]
  show ?thesis
  proof (cases "lateCall caller g1")
    case None
    then show ?thesis using Some f1 by (simp add: callUno_def)
  next
    case (Some g2)
    note f2 = lateCall_frame [OF Some]
    show ?thesis
      using \<open>ownCall caller g = Some g1\<close> Some f1 f2 penalty_frame [of rnd g2]
      by (simp add: callUno_def)
  qed
qed

lemma drawAndSkip_started:
  "started (stateOf (drawAndSkip rnd n g)) = started g"
  using drawCards_frame [of rnd n g]
  by (cases "drawCards rnd n g") (simp_all add: drawAndSkip_def nextTurn_frame)

lemma findIndex_nat_less: "\<not> findIndex P xs < 0 \<Longrightarrow> nat (findIndex P xs) < length xs"
  using findIndex_bounds [of P xs] by simp

text \<open>What the first half of \<open>playCard\<close> guarantees to the second half.\<close>

lemma selectCard_Chosen:
  assumes "selectCard rnd text g = Chosen sel col g1"
  shows "sel < length (handInPlay g1) \<and>
         (turn g1 = -1 \<or> (\<exists>p. playerAt g1 (turn g1) = Some p)) \<and>
         (\<exists>es. g1 = say es g)"
proof (cases "turn g = -1")
  case True
  with assms show ?thesis
    by (auto simp: selectCard_def selectFirst_def Let_def handInPlay_def say_def
        split: if_splits intro: exI [of _ "[]"])
next
  case False
  show ?thesis
  proof (cases "playerAt g (turn g)")
    case None
    with assms False show ?thesis by (simp add: selectCard_def)
  next
    case (Some p)
    show ?thesis
    proof (cases "npc p")
      case True
      with assms False Some have n: "selectNPC rnd p g = Chosen sel col g1"
        by (simp add: selectCard_def)
      then obtain s where s: "scanDown (hand p) (topCard g) (length (hand p)) = Some s"
        and s0: "0 \<le> s" and sel: "sel = nat s"
        and g1: "g1 = (if length (hand p) = 2 \<and> chance (rnd 2)
                      then say [CallTimer (ident p)] g else g)"
        by (auto simp: selectNPC_def split: option.splits if_splits outcome.splits)
      from scanDown_found [OF s] s0 sel have "sel < length (hand p)" by auto
      moreover have "\<exists>es. g1 = say es g"
        using g1 by (auto simp: say_def intro: exI [of _ "[]"])
      ultimately show ?thesis using False Some g1
        by (auto simp: handInPlay_def)
    next
      case npcF: False
      with assms False Some have n: "selectHuman text p g = Chosen sel col g1"
        by (simp add: selectCard_def)
      then have g1: "g1 = g" and "sel < length (hand p)"
        by (auto simp: selectHuman_def Let_def findIndex_nat_less
            split: play_text.splits option.splits if_splits)
      moreover have "\<exists>es. g1 = say es g"
        using g1 by (auto simp: say_def intro: exI [of _ "[]"])
      ultimately show ?thesis using False Some g1
        by (auto simp: handInPlay_def)
    qed
  qed
qed

lemma selectCard_Stop:
  assumes "selectCard rnd text g = Stop r"
  shows "totalCards (stateOf r) = totalCards g \<and> started (stateOf r) = started g"
proof (cases "turn g = -1")
  case True
  with assms show ?thesis
    by (auto simp: selectCard_def selectFirst_def Let_def split: if_splits)
next
  case False
  show ?thesis
  proof (cases "playerAt g (turn g)")
    case None
    with assms False show ?thesis by (auto simp: selectCard_def)
  next
    case (Some p)
    show ?thesis
    proof (cases "npc p")
      case True
      with assms False Some have n: "selectNPC rnd p g = Stop r"
        by (simp add: selectCard_def)
      have "stateOf r = g \<or> stateOf r = say [PlayTimer] (stateOf (callUno (\<lambda>k. rnd (4 + k)) (ident p) g))
         \<or> stateOf r = stateOf (callUno (\<lambda>k. rnd (4 + k)) (ident p) g)
         \<or> stateOf r = stateOf (drawAndSkip (\<lambda>k. rnd (4 + k)) 1 g)"
        using n by (auto simp: selectNPC_def split: option.splits if_splits outcome.splits)
      then show ?thesis
        using totalCards_callUno [of "\<lambda>k. rnd (4 + k)" "ident p" g]
          callUno_frame [of "\<lambda>k. rnd (4 + k)" "ident p" g]
          totalCards_drawAndSkip [OF Some, of "\<lambda>k. rnd (4 + k)" 1]
          drawAndSkip_started [of "\<lambda>k. rnd (4 + k)" 1 g]
        by auto
    next
      case npcF: False
      with assms False Some have n: "selectHuman text p g = Stop r"
        by (simp add: selectCard_def)
      then show ?thesis
        by (auto simp: selectHuman_def Let_def split: play_text.splits option.splits if_splits)
    qed
  qed
qed

lemma playCard_keeps:
  "totalCards (stateOf (playCard rnd text g)) = totalCards g \<and>
   (started g \<longrightarrow> started (stateOf (playCard rnd text g)) \<or>
                    handsEmpty (stateOf (playCard rnd text g)))"
proof (cases "selectCard rnd text g")
  case (Stop r)
  from selectCard_Stop [OF Stop] show ?thesis by (simp add: playCard_def Stop)
next
  case (Chosen sel col g1)
  from selectCard_Chosen [OF Chosen] obtain es where
    a: "sel < length (handInPlay g1)" "turn g1 = -1 \<or> (\<exists>p. playerAt g1 (turn g1) = Some p)"
    and g1: "g1 = say es g" by blast
  from commitCard_keeps [OF a, of rnd col] g1 show ?thesis
    by (simp add: playCard_def Chosen)
qed

text \<open>Dealing to every player returns.\<close>

lemma dealLoop_returns:
  "0 \<le> turn g \<Longrightarrow> nat (turn g) + k = length (players g) \<Longrightarrow>
   \<exists>g'. dealLoop rnds k g = Return () g'"
proof (induction k arbitrary: g)
  case 0
  then show ?case by simp
next
  case (Suc k)
  from Suc.prems have "playerAt g (turn g) = Some (players g ! nat (turn g))"
    by (simp add: playerAt_def)
  then obtain p where p: "playerAt g (turn g) = Some p" by blast
  let ?g0 = "setPlayer (turn g) (p\<lparr>hand := []\<rparr>) g"
  have at: "playerAt ?g0 (turn ?g0) = Some (p\<lparr>hand := []\<rparr>)"
    using playerAt_setPlayer [OF p] by simp
  from drawCards_returns [OF at, of "rnds (nat (turn g))" 7] obtain g1 where
    r: "drawCards (rnds (nat (turn g))) 7 ?g0 = Return () g1" by blast
  with drawCards_frame [of "rnds (nat (turn g))" 7 ?g0]
  have f: "turn g1 = turn g" "length (players g1) = length (players g)" by simp_all
  let ?g2 = "g1\<lparr>turn := turn g1 + 1\<rparr>"
  have pre: "0 \<le> turn ?g2" "nat (turn ?g2) + k = length (players ?g2)"
    using Suc.prems f by (simp_all add: nat_add_distrib)
  from Suc.IH [OF pre] show ?case using p r by simp
qed

text \<open>
  In general \<open>startGame\<close> loses exactly the cards that are in the hands when it is
  called: the loop empties each hand before it deals.
\<close>

lemma dealLoop_total:
  "0 \<le> turn g \<Longrightarrow> nat (turn g) + k = length (players g) \<Longrightarrow>
   totalCards (stateOf (dealLoop rnds k g)) +
     sum_list (map (\<lambda>p. length (hand p)) (drop (nat (turn g)) (players g))) = totalCards g"
proof (induction k arbitrary: g)
  case 0
  then show ?case by simp
next
  case (Suc k)
  let ?i = "nat (turn g)"
  from Suc.prems have i: "?i < length (players g)" by simp
  let ?p = "players g ! ?i"
  from Suc.prems i have p: "playerAt g (turn g) = Some ?p" by (simp add: playerAt_def)
  let ?g0 = "setPlayer (turn g) (?p\<lparr>hand := []\<rparr>) g"
  have at: "playerAt ?g0 (turn ?g0) = Some (?p\<lparr>hand := []\<rparr>)"
    using playerAt_setPlayer [OF p] by simp
  have t0: "totalCards ?g0 + length (hand ?p) = totalCards g"
    using totalCards_setPlayer [OF p, of "?p\<lparr>hand := []\<rparr>"] by simp
  let ?q = "?p\<lparr>hand := (if \<not> npc ?p then sortHand (fst (drawLoop (rnds ?i) 7 (discarded g)) @ [])
                          else fst (drawLoop (rnds ?i) 7 (discarded g)) @ []),
               calledUno := False\<rparr>"
  let ?g1 = "?g0\<lparr>discarded := snd (drawLoop (rnds ?i) 7 (discarded g)),
                 players := (players ?g0)[?i := ?q]\<rparr>"
  have r: "drawCards (rnds ?i) 7 ?g0 = Return () ?g1"
    using drawCards_Return [OF at, of "rnds ?i" 7] by (simp add: setPlayer_def)
  have t1: "totalCards ?g1 = totalCards ?g0"
    using totalCards_drawCards [OF at, of "rnds ?i" 7] r by simp
  let ?g2 = "?g1\<lparr>turn := turn ?g1 + 1\<rparr>"
  have tg: "turn ?g2 = turn g + 1" by (simp add: setPlayer_def)
  have pl: "players ?g2 = (players g)[?i := ?q]" by (simp add: setPlayer_def)
  have pre: "0 \<le> turn ?g2" "nat (turn ?g2) + k = length (players ?g2)"
    using Suc.prems by (simp_all only: tg pl, simp_all add: nat_add_distrib)
  have dr: "drop (nat (turn ?g2)) (players ?g2) = drop (Suc ?i) (players g)"
    using Suc.prems by (simp only: tg pl, simp add: nat_add_distrib)
  from Suc.IH [OF pre] have ih:
    "totalCards (stateOf (dealLoop rnds k ?g2)) +
       sum_list (map (\<lambda>p. length (hand p)) (drop (Suc ?i) (players g))) = totalCards ?g0"
    by (simp only: dr totalCards_upd t1)
  have sp: "drop ?i (players g) = ?p # drop (Suc ?i) (players g)"
    using i by (simp add: Cons_nth_drop_Suc)
  have step: "dealLoop rnds (Suc k) g = dealLoop rnds k ?g2"
    using p r by simp
  show ?case
    using ih t0 by (simp only: step sp) simp
qed

lemma startGame_total:
  "totalCards (stateOf (startGame rnds rnd g)) +
     sum_list (map (\<lambda>p. length (hand p)) (players g)) = totalCards g"
proof -
  let ?g0 = "g\<lparr>turn := 0\<rparr>"
  have pre: "0 \<le> turn ?g0" "nat (turn ?g0) + length (players g) = length (players ?g0)"
    by simp_all
  from dealLoop_returns [OF pre, of rnds] obtain g1 where
    r: "dealLoop rnds (length (players g)) ?g0 = Return () g1" by blast
  from dealLoop_total [OF pre, of rnds] r
  have t1: "totalCards g1 + sum_list (map (\<lambda>p. length (hand p)) (players g)) = totalCards g"
    by simp
  from playCard_keeps [of rnd NoText "g1\<lparr>turn := -1, started := True\<rparr>"] t1
  show ?thesis using r by (simp add: startGame_def)
qed

lemma getHand_length: "length getHand = 108"
  by (simp add: getHand_def)

text \<open>The steps of \<open>callUno\<close> seen from one player.\<close>

lemma ownCall_other:
  assumes "ownCall caller g = Some g1" and "playerAt g i = Some p" and "length (hand p) \<noteq> 2"
  shows "playerAt g1 i = Some p"
proof -
  from assms(1) obtain cur where cur: "playerAt g (turn g) = Some cur"
    by (auto simp: ownCall_def split: option.splits)
  show ?thesis
  proof (cases "ident cur = caller \<and> \<not> calledUno cur \<and> length (hand cur) = 2")
    case False
    with assms(1) cur have "g1 = g" by (auto simp: ownCall_def)
    with assms(2) show ?thesis by simp
  next
    case True
    with assms(1) cur have g1: "g1 = say [UnoCalled (ident cur)]
                           (setPlayer (turn g) (cur\<lparr>calledUno := True\<rparr>) g)"
      by (auto simp: ownCall_def)
    from True assms(2,3) cur have "i \<noteq> turn g" by auto
    moreover from cur have "0 \<le> turn g" by (auto dest: playerAt_SomeD)
    ultimately show ?thesis using assms(2) g1 by (simp add: playerAt_setPlayer_other)
  qed
qed

lemma lateCall_idle:
  "playerAt g (previousTurn g) = Some prev \<Longrightarrow>
   ident prev \<noteq> caller \<or> calledUno prev \<or> length (hand prev) \<noteq> 1 \<Longrightarrow>
   lateCall caller g = Some g"
  by (auto simp: lateCall_def)

lemma penalty_idle:
  "playerAt g (previousTurn g) = Some prev \<Longrightarrow> calledUno prev \<or> length (hand prev) \<noteq> 1 \<Longrightarrow>
   penalty rnd g = Return () g"
  by (auto simp: penalty_def)

lemma penalty_fires:
  assumes prev: "playerAt g (previousTurn g) = Some prev"
    and nc: "\<not> calledUno prev" and one: "length (hand prev) = 1"
  shows "penalty rnd g =
    Return () ((say [ForgotUno (ident prev)] g)\<lparr>
                 discarded := snd (drawLoop rnd 2 (discarded g)),
                 players := (players g)[nat (previousTurn g) :=
                   prev\<lparr>hand := (if \<not> npc prev then sortHand (fst (drawLoop rnd 2 (discarded g)) @ hand prev)
                                else fst (drawLoop rnd 2 (discarded g)) @ hand prev),
                      calledUno := False\<rparr>]\<rparr>)"
proof -
  let ?g1 = "(say [ForgotUno (ident prev)] g)\<lparr>turn := previousTurn g\<rparr>"
  have at: "playerAt ?g1 (turn ?g1) = Some prev" using prev by simp
  show ?thesis
    using prev nc one
    by (simp add: penalty_def Let_def drawCards_Return [OF at])
qed


text \<open>The definitions that running the model on a concrete table unfolds.\<close>

lemmas run_defs =
  table_def human_def robot_def zeros_def ones_def handSizes_def Card_def face_defs
  playerAt_def setPlayer_def say_def randomIndex_def splice1_def resetWild_def sortHand_def
  cardKey_def drawCards_def drawLoop_numeral nextTurn_def advance_def drawAndSkip_def
  ownCall_def lateCall_def penalty_def callUno_def endGame_def handColors_def
  applyReverse_def skipFlag_def forcedDraws_def resolveEffects_def handInPlay_def
  setHandInPlay_def paint_def placeCard_def commitCard_def selectFirst_def wantsCatch_def
  npcColor_def selectNPC_def sameCard_def matchesTop_def selectHuman_def selectCard_def
  playCard_def removePlayer_def idOfString_def chance_def randomColor_def checkCard_def

text \<open>The next index is a player's index as soon as there is a player.\<close>

lemma advance_valid:
  "players g \<noteq> [] \<Longrightarrow> \<exists>p. playerAt g (advance g t) = Some p"
  by (auto simp: advance_def playerAt_def Let_def)

lemma advance_cong:
  "length (players g') = length (players g) \<Longrightarrow> direction g' = direction g \<Longrightarrow>
   advance g' t = advance g t"
  by (simp add: advance_def)

text \<open>\<open>nextTurn\<close> when there is a current player.\<close>

lemma nextTurn_props:
  assumes "turn g \<noteq> -1" and "playerAt g (turn g) = Some p0"
  shows "\<exists>g' p. nextTurn r skip g = Return () g' \<and>
           turn g' = advance g (turn g) \<and> playerAt g' (turn g') = Some p \<and>
           players g' = players g \<and> discarded g' = discarded g \<and> topCard g' = topCard g \<and>
           direction g' = direction g \<and> previousTurn g' = previousTurn g \<and>
           announced g' = announced g @
             (if skip then [Skipping (ident p)]
              else NextTurn (ident p) # (if npc p then [PlayTimer] else []))"
proof -
  from assms(2) have "players g \<noteq> []" by (auto dest: playerAt_SomeD)
  from advance_valid [OF this, of "turn g"] obtain p where
    p: "playerAt g (advance g (turn g)) = Some p" by blast
  show ?thesis
    using assms p by (auto simp: nextTurn_def Let_def)
qed

text \<open>\<open>drawCards\<close> when there is a current player.\<close>

lemma drawCards_props:
  assumes "playerAt g (turn g) = Some p"
  shows "\<exists>g' p'. drawCards rnd n g = Return () g' \<and>
           turn g' = turn g \<and> playerAt g' (turn g) = Some p' \<and>
           length (discarded g') = length (discarded g) - min n (length (discarded g)) \<and>
           length (hand p') = length (hand p) + min n (length (discarded g)) \<and>
           ident p' = ident p \<and> npc p' = npc p \<and>
           (\<forall>j. j \<noteq> turn g \<longrightarrow> playerAt g' j = playerAt g j) \<and>
           length (players g') = length (players g) \<and>
           topCard g' = topCard g \<and> direction g' = direction g \<and>
           previousTurn g' = previousTurn g \<and> announced g' = announced g"
proof -
  let ?drawn = "fst (drawLoop rnd n (discarded g))"
  let ?rest = "snd (drawLoop rnd n (discarded g))"
  let ?p' = "p\<lparr>hand := (if \<not> npc p then sortHand (?drawn @ hand p) else ?drawn @ hand p),
                calledUno := False\<rparr>"
  let ?g' = "g\<lparr>discarded := ?rest, players := (players g)[nat (turn g) := ?p']\<rparr>"
  from assms have i: "0 \<le> turn g" "nat (turn g) < length (players g)"
    by (auto dest: playerAt_SomeD)
  have r: "drawCards rnd n g = Return () ?g'"
    by (rule drawCards_Return [OF assms])
  have at: "playerAt ?g' (turn g) = Some ?p'"
    using i by (simp add: playerAt_def)
  have other: "\<forall>j. j \<noteq> turn g \<longrightarrow> playerAt ?g' j = playerAt g j"
    using i by (auto simp: playerAt_def)
  have len: "length (hand ?p') = length (hand p) + min n (length (discarded g))"
    by (simp add: sortHand_def drawLoop_length)
  show ?thesis
    using r at other len by (simp add: drawLoop_length)
qed

text \<open>Putting a card of the current player on top.\<close>

lemma placeCard_props:
  assumes "turn g \<noteq> -1" and "playerAt g (turn g) = Some p" and "sel < length (hand p)"
  shows "turn (placeCard sel col g) = turn g \<and>
         playerAt (placeCard sel col g) (turn g) = Some (p\<lparr>hand := splice1 sel (hand p)\<rparr>) \<and>
         (\<forall>j. j \<noteq> turn g \<longrightarrow> playerAt (placeCard sel col g) j = playerAt g j) \<and>
         length (players (placeCard sel col g)) = length (players g) \<and>
         topCard (placeCard sel col g) = Some (paint col (hand p ! sel)) \<and>
         discarded (placeCard sel col g) =
           discarded g @ (case topCard g of None \<Rightarrow> [] | Some t \<Rightarrow> [t]) \<and>
         direction (placeCard sel col g) = direction g \<and>
         previousTurn (placeCard sel col g) = previousTurn g \<and>
         announced (placeCard sel col g) = announced g \<and>
         handInPlay (placeCard sel col g) = splice1 sel (hand p)"
proof -
  from assms(2) have i: "0 \<le> turn g" "nat (turn g) < length (players g)"
    by (auto dest: playerAt_SomeD)
  show ?thesis
    using assms i
    by (cases "topCard g")
       (auto simp: placeCard_def Let_def handInPlay_def setHandInPlay_def playerAt_def)
qed

lemma face_paint [simp]: "face (paint col c) = face c"
  by (simp add: paint_def split: option.splits)

text \<open>The top card after a play is the played card, painted.\<close>

lemma forcedDraws_frame:
  "topCard (stateOf (forcedDraws rnd c g)) = topCard g \<and>
   direction (stateOf (forcedDraws rnd c g)) = direction g \<and>
   previousTurn (stateOf (forcedDraws rnd c g)) = previousTurn g \<and>
   turn (stateOf (forcedDraws rnd c g)) = turn g \<and>
   length (players (stateOf (forcedDraws rnd c g))) = length (players g)"
proof -
  let ?a = "if face c AND DRAW_TWO_EFFECT \<noteq> 0
            then drawCards (\<lambda>k. rnd (4 + k)) 2 g else Return () g"
  have fa: "topCard (stateOf ?a) = topCard g \<and> direction (stateOf ?a) = direction g \<and>
     previousTurn (stateOf ?a) = previousTurn g \<and> turn (stateOf ?a) = turn g \<and>
     length (players (stateOf ?a)) = length (players g)"
    using drawCards_frame [of "\<lambda>k. rnd (4 + k)" 2 g] by simp
  show ?thesis
  proof (cases ?a)
    case (Throw g1)
    with fa show ?thesis by (simp add: forcedDraws_def)
  next
    case (Return u g1)
    with fa drawCards_frame [of "\<lambda>k. rnd (6 + k)" 4 g1] show ?thesis
      by (simp add: forcedDraws_def)
  qed
qed

lemma resolveEffects_topCard:
  "topCard (stateOf (resolveEffects rnd c g)) = topCard g"
proof -
  let ?g1 = "applyReverse c (g\<lparr>previousTurn := turn g\<rparr>)"
  have t1: "topCard ?g1 = topCard g" by (simp add: applyReverse_def)
  show ?thesis
  proof (cases "nextTurn (rnd 3) (skipFlag c ?g1) ?g1")
    case (Throw g2)
    with nextTurn_frame [of "rnd 3" "skipFlag c ?g1" ?g1] t1 show ?thesis
      by (simp add: resolveEffects_def Let_def)
  next
    case (Return u g2)
    with nextTurn_frame [of "rnd 3" "skipFlag c ?g1" ?g1] t1
    have t2: "topCard g2 = topCard g" by simp
    show ?thesis
    proof (cases "forcedDraws rnd c g2")
      case (Throw g3)
      with forcedDraws_frame [of rnd c g2] t2 Return show ?thesis
        by (simp add: resolveEffects_def Let_def)
    next
      case r3: (Return u3 g3)
      with forcedDraws_frame [of rnd c g2] t2 have t3: "topCard g3 = topCard g" by simp
      show ?thesis
        using Return r3 t3 nextTurn_frame [of "rnd 10" False g3]
        by (cases "nextTurn (rnd 10) False g3") (simp_all add: resolveEffects_def Let_def)
    qed
  qed
qed

lemma commitCard_topCard:
  "topCard (stateOf (commitCard rnd sel col g)) = Some (paint col (handInPlay g ! sel))"
proof -
  have p: "topCard (placeCard sel col g) = Some (paint col (handInPlay g ! sel))"
    by (simp add: placeCard_def Let_def)
  show ?thesis
    using p resolveEffects_topCard [of rnd "paint col (handInPlay g ! sel)" "placeCard sel col g"]
    by (auto simp: commitCard_def Let_def endGame_def split: option.splits)
qed

lemma handColors_step:
  "NONE \<notin> set acc \<Longrightarrow>
   NONE \<notin> set (foldl (\<lambda>acc el. if color el \<noteq> NONE \<and> color el \<notin> set acc
                               then acc @ [color el] else acc) acc h)"
proof (induction h arbitrary: acc)
  case Nil
  then show ?case by simp
next
  case (Cons a h)
  show ?case
  proof (cases "color a \<noteq> NONE \<and> color a \<notin> set acc")
    case True
    with Cons.prems have "NONE \<notin> set (acc @ [color a])" by auto
    from Cons.IH [OF this] True show ?thesis by simp
  next
    case False
    with Cons.IH [OF Cons.prems] show ?thesis by auto
  qed
qed

lemma handColors_colored: "NONE \<notin> set (handColors h)"
  using handColors_step [of "[]" h] by (simp add: handColors_def)

lemma randomColor_colored: "randomColor r \<noteq> NONE"
proof -
  have e: "randomColor r = [RED, BLUE, GREEN, YELLOW] ! (r mod 4)"
    by (simp add: randomColor_def randomIndex_def)
  have "r mod 4 < length [RED, BLUE, GREEN, YELLOW]" by simp
  then have "[RED, BLUE, GREEN, YELLOW] ! (r mod 4) \<in> set [RED, BLUE, GREEN, YELLOW]"
    by (rule nth_mem)
  with e show ?thesis by auto
qed

lemma npcColor_colored: "npcColor r h \<noteq> NONE"
proof (cases "length (handColors h) = 0")
  case True
  then show ?thesis by (simp add: npcColor_def randomColor_colored)
next
  case False
  then have "handColors h ! randomIndex r (length (handColors h)) \<in> set (handColors h)"
    by (simp add: randomIndex_less)
  with handColors_colored [of h] False show ?thesis
    by (auto simp: npcColor_def)
qed

lemma DRAW_TWO_bits:
  "DRAW_TWO AND REVERSE_EFFECT = 0" "DRAW_TWO AND SKIP_EFFECT \<noteq> 0"
  "DRAW_TWO AND DRAW_TWO_EFFECT \<noteq> 0" "DRAW_TWO AND DRAW_FOUR_EFFECT = 0"
  by (simp_all add: face_defs)

lemma REVERSE_bits:
  "REVERSE AND REVERSE_EFFECT \<noteq> 0" "REVERSE AND SKIP_EFFECT = 0"
  "REVERSE AND DRAW_TWO_EFFECT = 0" "REVERSE AND DRAW_FOUR_EFFECT = 0"
  by (simp_all add: face_defs)

lemma playerAt_players: "players g' = players g \<Longrightarrow> playerAt g' i = playerAt g i"
  by (simp add: playerAt_def)

text \<open>A play of the current player that leaves cards in the hand goes on to the effects.\<close>

lemma playCard_continues:
  assumes sel: "selectCard rnd inp g = Chosen sel col g1"
    and cur: "turn g \<noteq> -1"
    and p: "playerAt g (turn g) = Some p"
    and more: "2 \<le> length (hand p)"
  shows "sel < length (hand p) \<and> turn g1 = turn g \<and> playerAt g1 (turn g1) = Some p \<and>
         players g1 = players g \<and> discarded g1 = discarded g \<and> direction g1 = direction g \<and>
         topCard g1 = topCard g \<and>
         playCard rnd inp g =
           resolveEffects rnd (paint col (hand p ! sel)) (placeCard sel col g1)"
proof -
  from selectCard_Chosen [OF sel] obtain es where
    a: "sel < length (handInPlay g1)" and g1: "g1 = say es g" by blast
  from g1 cur p have h: "handInPlay g1 = hand p" by (simp add: handInPlay_def)
  from g1 cur p have c1: "turn g1 \<noteq> -1" "playerAt g1 (turn g1) = Some p" by simp_all
  from a h have s: "sel < length (hand p)" by simp
  note pc = placeCard_props [OF c1 s, of col]
  from pc s more have "length (handInPlay (placeCard sel col g1)) \<noteq> 0"
    by (simp add: length_splice1)
  then have "commitCard rnd sel col g1 =
      resolveEffects rnd (paint col (hand p ! sel)) (placeCard sel col g1)"
    by (simp add: commitCard_def Let_def h)
  then show ?thesis using s g1 c1 by (simp add: playCard_def sel)
qed






text \<open>A wild card is never selected without a color.\<close>

lemma selectCard_wild_color:
  assumes "selectCard rnd inp g = Chosen sel col g1"
    and "face (handInPlay g1 ! sel) AND WILD_EFFECT \<noteq> 0"
  shows "\<exists>k. col = Some k \<and> k \<noteq> NONE"
proof (cases "turn g = -1")
  case True
  with assms show ?thesis
    by (auto simp: selectCard_def selectFirst_def Let_def handInPlay_def randomColor_colored
        split: if_splits)
next
  case False
  show ?thesis
  proof (cases "playerAt g (turn g)")
    case None
    with assms False show ?thesis by (simp add: selectCard_def)
  next
    case (Some p)
    show ?thesis
    proof (cases "npc p")
      case True
      with assms(1) False Some have n: "selectNPC rnd p g = Chosen sel col g1"
        by (simp add: selectCard_def)
      then have "handInPlay g1 = hand p \<and>
          (face (hand p ! sel) AND WILD_EFFECT \<noteq> 0 \<longrightarrow>
             col = Some (npcColor (rnd 1) (hand p)))"
        using False Some
        by (auto simp: selectNPC_def handInPlay_def
            split: option.splits if_splits outcome.splits)
      with assms(2) show ?thesis by (simp add: npcColor_colored)
    next
      case npcF: False
      with assms(1) False Some have n: "selectHuman inp p g = Chosen sel col g1"
        by (simp add: selectCard_def)
      then obtain parsed where inp: "inp = Parsed parsed" and g1: "g1 = g"
        and nw: "\<not> (face parsed AND WILD_EFFECT \<noteq> 0 \<and> color parsed = NONE)"
        and f: "\<not> findIndex (sameCard parsed) (hand p) < 0"
        and sel: "sel = nat (findIndex (sameCard parsed) (hand p))"
        and col: "col = (if face parsed AND WILD_EFFECT \<noteq> 0 then Some (color parsed) else None)"
        by (auto simp: selectHuman_def Let_def split: play_text.splits option.splits if_splits)
      from f have "0 \<le> findIndex (sameCard parsed) (hand p)" by simp
      then have "sameCard parsed (hand p ! nat (findIndex (sameCard parsed) (hand p)))"
        by (rule findIndex_holds)
      then have "face (hand p ! sel) = face parsed" using sel by (simp add: sameCard_def)
      moreover from g1 False Some have "handInPlay g1 = hand p" by (simp add: handInPlay_def)
      ultimately show ?thesis using assms(2) nw col by auto
    qed
  qed
qed

lemma placeCard_pool: "topCard g = Some t \<Longrightarrow> last (discarded (placeCard sel col g)) = t"
  by (auto simp: placeCard_def Let_def setHandInPlay_def setPlayer_def split: option.splits)


section \<open>The deck\<close>

lemma standardDeck_unfold:
  "standardDeck = concat (map deckOfColor [RED, BLUE, GREEN, YELLOW]) @
     [Card WILD NONE, Card WILD NONE, Card WILD NONE, Card WILD NONE,
      Card DRAW_FOUR NONE, Card DRAW_FOUR NONE, Card DRAW_FOUR NONE, Card DRAW_FOUR NONE]"
  by (simp add: standardDeck_def replicate_four)

lemma sorted_decks: "sort_key cardKey getHand = sort_key cardKey standardDeck"
  by (simp add: getHand_def standardDeck_unfold deckOfColor_def replicate_two Card_def
      cardKey_def face_defs)

text \<open>
  C9. \<open>getHand()\<close> returns 108 cards, and as a multiset of (face, color) pairs they are
  the standard deck: for each of the four colors one 0, two each of 1 to 9, two Skip, two
  Reverse, two DrawTwo, plus four colorless Wild and four colorless WildDrawFour.
\<close>

theorem getHand_standard_deck:
  "length getHand = 108 \<and> mset getHand = mset standardDeck"
proof
  show "length getHand = 108"
    by (simp add: getHand_def)
  have "mset getHand = mset (sort_key cardKey getHand)" by simp
  also have "\<dots> = mset (sort_key cardKey standardDeck)" by (simp only: sorted_decks)
  also have "\<dots> = mset standardDeck" by simp
  finally show "mset getHand = mset standardDeck" .
qed

section \<open>Legal plays\<close>

lemma findIndex_neg: "(findIndex P xs < 0) = (\<forall>x \<in> set xs. \<not> P x)"
proof (induction xs)
  case Nil
  show ?case by simp
next
  case (Cons x xs)
  from findIndex_bounds [of P xs] Cons show ?case
    by (auto simp: Let_def)
qed

lemma findIndex_least: "i < nat (findIndex P xs) \<Longrightarrow> \<not> P (xs ! i)"
proof (induction xs arbitrary: i)
  case Nil
  then show ?case by simp
next
  case (Cons x xs)
  show ?case
  proof (cases "P x")
    case True
    with Cons.prems show ?thesis by simp
  next
    case False
    show ?thesis
    proof (cases i)
      case 0
      with False show ?thesis by simp
    next
      case (Suc k)
      from Cons.prems False have "i < nat (findIndex P xs + 1)"
        by (simp add: Let_def split: if_splits)
      with Suc have "k < nat (findIndex P xs)" by simp
      from Cons.IH [OF this] Suc show ?thesis by simp
    qed
  qed
qed

lemma paint_parsed:
  assumes "sameCard c el"
    and "\<not> (face c AND WILD_EFFECT \<noteq> 0 \<and> color c = NONE)"
  shows "paint (if face c AND WILD_EFFECT \<noteq> 0 then Some (color c) else None) el = c"
  using assms by (cases c, cases el) (auto simp: sameCard_def paint_def)

text \<open>
  C2. For all cards \<open>c\<close> and \<open>t\<close>, \<open>checkCard(c, t)\<close> is true exactly when \<open>c\<close> has the
  wild bit set, or the faces of \<open>c\<close> and \<open>t\<close> masked by \<open>BASE_MASK\<close> are equal, or their
  colors are equal. The test of a human play in \<open>playCard\<close> accepts under exactly this
  condition: for a parsed card and a top card with faces of the enum (a wild card parsed
  with its color), the play is refused as not valid exactly when \<open>checkCard\<close> is not true;
  and when \<open>checkCard\<close> is true, the play is accepted if the player holds the card, the
  first such card of the hand being chosen and becoming the top card, and is refused as
  not held otherwise.
\<close>

theorem legality_law:
  "checkCard c (Some t) =
     Some (face c AND WILD_EFFECT \<noteq> 0 \<or> face c AND BASE_MASK = face t AND BASE_MASK \<or>
           color c = color t) \<and>
   (face c \<in> set cardFaces \<and> face t \<in> set cardFaces \<and> turn g \<noteq> -1 \<and>
    playerAt g (turn g) = Some p \<and> \<not> npc p \<and> topCard g = Some t \<and>
    \<not> (face c AND WILD_EFFECT \<noteq> 0 \<and> color c = NONE) \<longrightarrow>
      ((selectCard rnd (Parsed c) g = Stop (Return (Some False) (say [Refused NotValid] g)))
        = (checkCard c (Some t) \<noteq> Some True)) \<and>
      (checkCard c (Some t) = Some True \<and> (\<exists>i<length (hand p). sameCard c (hand p ! i)) \<longrightarrow>
         (\<exists>j<length (hand p). sameCard c (hand p ! j) \<and>
            (\<forall>i<j. \<not> sameCard c (hand p ! i)) \<and>
            selectCard rnd (Parsed c) g =
              Chosen j (if face c AND WILD_EFFECT \<noteq> 0 then Some (color c) else None) g \<and>
            topCard (stateOf (playCard rnd (Parsed c) g)) = Some c)) \<and>
      (checkCard c (Some t) = Some True \<and> (\<forall>i<length (hand p). \<not> sameCard c (hand p ! i)) \<longrightarrow>
         selectCard rnd (Parsed c) g = Stop (Return (Some False) (say [Refused NotHeld] g))))"
proof (intro conjI impI)
  show "checkCard c (Some t) =
     Some (face c AND WILD_EFFECT \<noteq> 0 \<or> face c AND BASE_MASK = face t AND BASE_MASK \<or>
           color c = color t)"
    by (simp add: checkCard_def)
next
  assume a: "face c \<in> set cardFaces \<and> face t \<in> set cardFaces \<and> turn g \<noteq> -1 \<and>
    playerAt g (turn g) = Some p \<and> \<not> npc p \<and> topCard g = Some t \<and>
    \<not> (face c AND WILD_EFFECT \<noteq> 0 \<and> color c = NONE)"
  then have m: "matchesTop c t = (checkCard c (Some t) = Some True)"
    by (simp add: matchesTop_checkCard)
  have neq: "say [Refused NotHeld] g \<noteq> say [Refused NotValid] g"
    by (rule say_neq) simp
  from a show "(selectCard rnd (Parsed c) g = Stop (Return (Some False) (say [Refused NotValid] g)))
        = (checkCard c (Some t) \<noteq> Some True)"
    using m neq by (auto simp: selectCard_def selectHuman_def Let_def)
next
  assume a: "face c \<in> set cardFaces \<and> face t \<in> set cardFaces \<and> turn g \<noteq> -1 \<and>
    playerAt g (turn g) = Some p \<and> \<not> npc p \<and> topCard g = Some t \<and>
    \<not> (face c AND WILD_EFFECT \<noteq> 0 \<and> color c = NONE)"
  assume b: "checkCard c (Some t) = Some True \<and> (\<exists>i<length (hand p). sameCard c (hand p ! i))"
  let ?j = "nat (findIndex (sameCard c) (hand p))"
  let ?col = "if face c AND WILD_EFFECT \<noteq> 0 then Some (color c) else None"
  from a have m: "matchesTop c t = (checkCard c (Some t) = Some True)"
    by (simp add: matchesTop_checkCard)
  from b have "\<exists>x \<in> set (hand p). sameCard c x" by auto
  then have nn: "\<not> findIndex (sameCard c) (hand p) < 0" by (simp add: findIndex_neg)
  then have j: "?j < length (hand p)" by (rule findIndex_nat_less)
  from nn have sj: "sameCard c (hand p ! ?j)" by (simp add: findIndex_holds)
  have least: "\<forall>i<?j. \<not> sameCard c (hand p ! i)" by (simp add: findIndex_least)
  have s: "selectCard rnd (Parsed c) g = Chosen ?j ?col g"
    using a b m nn by (simp add: selectCard_def selectHuman_def Let_def)
  then have pl: "playCard rnd (Parsed c) g = commitCard rnd ?j ?col g"
    by (simp add: playCard_def)
  have h: "handInPlay g = hand p" using a by (simp add: handInPlay_def)
  from a sj have pc: "paint ?col (hand p ! ?j) = c" by (intro paint_parsed) simp_all
  have "topCard (stateOf (playCard rnd (Parsed c) g)) = Some (paint ?col (hand p ! ?j))"
    using commitCard_topCard [of rnd ?j ?col g] h by (simp only: pl)
  with pc have tc: "topCard (stateOf (playCard rnd (Parsed c) g)) = Some c" by simp
  from j sj least s tc
  show "\<exists>j<length (hand p). sameCard c (hand p ! j) \<and>
            (\<forall>i<j. \<not> sameCard c (hand p ! i)) \<and>
            selectCard rnd (Parsed c) g =
              Chosen j (if face c AND WILD_EFFECT \<noteq> 0 then Some (color c) else None) g \<and>
            topCard (stateOf (playCard rnd (Parsed c) g)) = Some c"
    by blast
next
  assume a: "face c \<in> set cardFaces \<and> face t \<in> set cardFaces \<and> turn g \<noteq> -1 \<and>
    playerAt g (turn g) = Some p \<and> \<not> npc p \<and> topCard g = Some t \<and>
    \<not> (face c AND WILD_EFFECT \<noteq> 0 \<and> color c = NONE)"
  assume b: "checkCard c (Some t) = Some True \<and> (\<forall>i<length (hand p). \<not> sameCard c (hand p ! i))"
  from a have m: "matchesTop c t = (checkCard c (Some t) = Some True)"
    by (simp add: matchesTop_checkCard)
  from b have "\<forall>x \<in> set (hand p). \<not> sameCard c x" by (auto simp: in_set_conv_nth)
  then have "findIndex (sameCard c) (hand p) < 0" by (simp add: findIndex_neg)
  with a b m show "selectCard rnd (Parsed c) g = Stop (Return (Some False) (say [Refused NotHeld] g))"
    by (auto simp: selectCard_def selectHuman_def Let_def)
qed

theorem legality_law_witness:
  "checkCard (Card SEVEN BLUE) (Some (Card TWO RED)) = Some False \<and>
   selectCard zeros (Parsed (Card SEVEN BLUE)) lowPool =
     Stop (Return (Some False) (say [Refused NotValid] lowPool)) \<and>
   checkCard (Card FIVE RED) (Some (Card TWO RED)) = Some True \<and>
   selectCard zeros (Parsed (Card FIVE RED)) lowPool = Chosen 0 None lowPool \<and>
   topCard (stateOf (playCard zeros (Parsed (Card FIVE RED)) lowPool)) = Some (Card FIVE RED) \<and>
   checkCard (Card TWO BLUE) (Some (Card TWO RED)) = Some True \<and>
   selectCard zeros (Parsed (Card TWO BLUE)) lowPool =
     Stop (Return (Some False) (say [Refused NotHeld] lowPool))"
proof -
  let ?ann = "human ''ann'' [Card FIVE RED]"
  have h: "face (Card f k) \<in> set cardFaces \<and> face (Card TWO RED) \<in> set cardFaces \<and>
      turn lowPool \<noteq> -1 \<and> playerAt lowPool (turn lowPool) = Some ?ann \<and>
      \<not> npc ?ann \<and> topCard lowPool = Some (Card TWO RED) \<and>
      \<not> (face (Card f k) AND WILD_EFFECT \<noteq> 0 \<and> color (Card f k) = NONE)"
    if "f \<in> {SEVEN, FIVE, TWO}" for f k
    using that
    by (auto simp: lowPool_def table_def playerAt_def human_def Card_def cardFaces_def face_defs)
  note h7 = h [of SEVEN BLUE, OF insertI1]
  note h5 = h [of FIVE RED, OF insertI2 [OF insertI1]]
  note h2 = h [of TWO BLUE, OF insertI2 [OF insertI2 [OF insertI1]]]
  have c7: "checkCard (Card SEVEN BLUE) (Some (Card TWO RED)) = Some False"
    and c5: "checkCard (Card FIVE RED) (Some (Card TWO RED)) = Some True"
    and c2: "checkCard (Card TWO BLUE) (Some (Card TWO RED)) = Some True"
    by (simp_all add: checkCard_def Card_def face_defs)
  note l7 = legality_law [of "Card SEVEN BLUE" "Card TWO RED" lowPool ?ann zeros,
      THEN conjunct2, THEN mp, OF h7, THEN conjunct1]
  from l7 c7
  have r7: "selectCard zeros (Parsed (Card SEVEN BLUE)) lowPool =
     Stop (Return (Some False) (say [Refused NotValid] lowPool))"
    by simp
  have held: "checkCard (Card FIVE RED) (Some (Card TWO RED)) = Some True \<and>
     (\<exists>i<length (hand ?ann). sameCard (Card FIVE RED) (hand ?ann ! i))"
    using c5 by (simp add: human_def sameCard_def)
  note l5 = legality_law [of "Card FIVE RED" "Card TWO RED" lowPool ?ann zeros,
      THEN conjunct2, THEN mp, OF h5, THEN conjunct2, THEN conjunct1, THEN mp, OF held]
  from l5
  have r5: "selectCard zeros (Parsed (Card FIVE RED)) lowPool = Chosen 0 None lowPool \<and>
     topCard (stateOf (playCard zeros (Parsed (Card FIVE RED)) lowPool)) = Some (Card FIVE RED)"
    by (auto simp: human_def Card_def face_defs)
  have nheld: "checkCard (Card TWO BLUE) (Some (Card TWO RED)) = Some True \<and>
     (\<forall>i<length (hand ?ann). \<not> sameCard (Card TWO BLUE) (hand ?ann ! i))"
    using c2 by (simp add: human_def sameCard_def Card_def face_defs)
  note l2 = legality_law [of "Card TWO BLUE" "Card TWO RED" lowPool ?ann zeros,
      THEN conjunct2, THEN mp, OF h2, THEN conjunct2, THEN conjunct2, THEN mp, OF nheld]
  from c7 r7 c5 r5 c2 l2 show ?thesis by blast
qed

section \<open>Drawing from a pool that runs out\<close>

text \<open>
  C10. In every state with a current player and for every \<open>n\<close>, \<open>drawCards(n)\<close> returns
  (it does not throw and nothing is put back into the pool): it moves
  \<open>min n (pool size)\<close> cards, possibly none, from the pool into the hand of the current
  player (wild cards with their color reset), leaves the other players and the top card
  alone, and clears the flag \<open>calledUno\<close> of the current player.
\<close>

theorem drawCards_exhausted_pool:
  assumes "playerAt g (turn g) = Some p"
  shows "\<exists>g' p'. drawCards rnd n g = Return () g' \<and>
           turn g' = turn g \<and> playerAt g' (turn g) = Some p' \<and>
           length (discarded g') = length (discarded g) - min n (length (discarded g)) \<and>
           length (hand p') = length (hand p) + min n (length (discarded g)) \<and>
           mset (hand p') + mset (map resetWild (discarded g')) =
             mset (hand p) + mset (map resetWild (discarded g)) \<and>
           calledUno p' = False \<and> ident p' = ident p \<and> npc p' = npc p \<and>
           (\<forall>j. j \<noteq> turn g \<longrightarrow> playerAt g' j = playerAt g j) \<and>
           topCard g' = topCard g"
proof -
  let ?drawn = "fst (drawLoop rnd n (discarded g))"
  let ?rest = "snd (drawLoop rnd n (discarded g))"
  let ?p' = "p\<lparr>hand := (if \<not> npc p then sortHand (?drawn @ hand p) else ?drawn @ hand p),
                calledUno := False\<rparr>"
  let ?g' = "g\<lparr>discarded := ?rest, players := (players g)[nat (turn g) := ?p']\<rparr>"
  from assms have i: "0 \<le> turn g" "nat (turn g) < length (players g)"
    by (auto dest: playerAt_SomeD)
  have r: "drawCards rnd n g = Return () ?g'"
    by (rule drawCards_Return [OF assms])
  have at: "playerAt ?g' (turn g) = Some ?p'"
    using i by (simp add: playerAt_def)
  have other: "\<forall>j. j \<noteq> turn g \<longrightarrow> playerAt ?g' j = playerAt g j"
    using i by (auto simp: playerAt_def)
  have ms: "mset (hand ?p') + mset (map resetWild ?rest) =
            mset (hand p) + mset (map resetWild (discarded g))"
    using drawLoop_mset [of rnd n "discarded g"] by (simp add: sortHand_def ac_simps)
  have len: "length (hand ?p') = length (hand p) + min n (length (discarded g))"
    by (simp add: sortHand_def drawLoop_length)
  show ?thesis
    using r at other ms len by (simp add: drawLoop_length)
qed

theorem drawCards_exhausted_pool_witness:
  "playerAt lowPool (turn lowPool) = Some (human ''ann'' [Card FIVE RED]) \<and>
   drawCards (\<lambda>k. 0) 2 lowPool =
     Return () (lowPool\<lparr>discarded := [],
        players := [human ''ann'' [Card FIVE RED, Card WILD NONE], robot ''hal'' [Card SIX RED]]\<rparr>) \<and>
   (\<exists>g' p'. drawCards (\<lambda>k. 0) 2 lowPool = Return () g' \<and>
       playerAt g' (turn lowPool) = Some p' \<and> length (discarded g') = 0 \<and>
       length (hand p') = 2 \<and> calledUno p' = False)"
proof -
  have h: "playerAt lowPool (turn lowPool) = Some (human ''ann'' [Card FIVE RED])"
    by (simp add: lowPool_def table_def playerAt_def)
  have e: "drawCards (\<lambda>k. 0) 2 lowPool =
     Return () (lowPool\<lparr>discarded := [],
        players := [human ''ann'' [Card FIVE RED, Card WILD NONE], robot ''hal'' [Card SIX RED]]\<rparr>)"
    by (simp add: drawCards_def playerAt_def setPlayer_def lowPool_def table_def human_def
        robot_def drawLoop_numeral randomIndex_def splice1_def resetWild_def sortHand_def
        cardKey_def Card_def face_defs)
  from drawCards_exhausted_pool [OF h, of "\<lambda>k. 0" 2]
  have "\<exists>g' p'. drawCards (\<lambda>k. 0) 2 lowPool = Return () g' \<and>
       playerAt g' (turn lowPool) = Some p' \<and> length (discarded g') = 0 \<and>
       length (hand p') = 2 \<and> calledUno p' = False"
    by (auto simp: lowPool_def table_def human_def)
  with h e show ?thesis by blast
qed

section \<open>Conservation of the cards\<close>

text \<open>
  Every operation on a game in play keeps the number of cards: \<open>playCard\<close>
  (\<open>playCard_keeps\<close>), \<open>drawCards\<close> and \<open>drawAndSkip\<close> for a current player
  (\<open>totalCards_drawCards\<close>, \<open>totalCards_drawAndSkip\<close>), \<open>callUno\<close> with its penalty
  (\<open>totalCards_callUno\<close>), \<open>removePlayer\<close> (\<open>totalCards_removePlayer\<close>) and \<open>endGame\<close>
  (\<open>totalCards_endGame\<close>). But \<open>startGame\<close> empties each hand by
  \<open>players[turn].hand = []\<close>, where \<open>endGame\<close> and \<open>removePlayer\<close> move the hand into the
  pool: it loses exactly the cards that are in the hands when it is called
  (\<open>startGame_total\<close>). And the timer set for an autonomous player is never cancelled, so
  that \<open>playCard\<close> can run, and deal cards, after the game has ended.
\<close>

lemma staleStart_deck: "sort_key cardKey (allCards staleStart) = sort_key cardKey getHand"
  by (simp add: allCards_def staleStart_def getHand_def human_def robot_def Card_def
      cardKey_def face_defs)

lemma afterTimer_run:
  "totalCards afterTimer = 108 \<and> handSizes afterTimer = [0, 2] \<and> \<not> started afterTimer \<and>
   topCard afterTimer = Some (Card DRAW_TWO RED) \<and>
   turn lobbyAgain = -1 \<and> \<not> started lobbyAgain \<and> handSizes lobbyAgain = [0, 0] \<and>
   totalCards lobbyAgain = 108 \<and>
   map ident (players afterKick) = [''ann'', ''bob''] \<and> turn afterKick = 0 \<and>
   playCard zeros (Parsed (Card ZERO GREEN)) afterKick = Return (Some True) afterWin"
  by (simp add: afterTimer_def lobbyAgain_def afterWin_def afterKick_def staleStart_def
      getHand_def run_defs totalCards_def Let_def)

lemma restarted_run:
  "totalCards restarted = 106 \<and> handSizes restarted = [7, 7] \<and> started restarted"
  by (simp add: restarted_def afterTimer_def lobbyAgain_def afterWin_def afterKick_def
      staleStart_def getHand_def run_defs totalCards_def startGame_def Let_def)

text \<open>
  C1. The number of cards in all hands, in the pool and on top is not 108 in every state
  the game reaches. The table \<open>staleStart\<close> holds the 108 cards of the deck, and it is the
  turn of Hal, whose timer is pending. Hal is removed, Ann plays the last card and wins,
  \<open>endGame\<close> returns all hands to the pool. Then the timer fires in the lobby: \<open>playCard\<close>
  takes the path of the first card, turns up a DrawTwo and makes Bob draw two cards.
  The next \<open>startGame\<close> empties the hand of Bob before it deals: two cards are gone, and
  the new game is played with 106 cards.
\<close>

theorem stale_timer_loses_cards:
  "mset (allCards staleStart) = mset getHand \<and> totalCards staleStart = 108 \<and>
   playerAt staleStart (turn staleStart) =
     Some (robot ''hal'' [Card ZERO YELLOW, Card ZERO BLUE, Card ONE RED, Card ONE RED,
                          Card ONE GREEN, Card ONE GREEN, Card ONE YELLOW]) \<and>
   last (announced staleStart) = PlayTimer \<and>
   map ident (players afterKick) = [''ann'', ''bob''] \<and> turn afterKick = 0 \<and>
   playCard zeros (Parsed (Card ZERO GREEN)) afterKick = Return (Some True) afterWin \<and>
   turn lobbyAgain = -1 \<and> \<not> started lobbyAgain \<and> handSizes lobbyAgain = [0, 0] \<and>
   totalCards lobbyAgain = 108 \<and>
   \<not> started afterTimer \<and> topCard afterTimer = Some (Card DRAW_TWO RED) \<and>
   handSizes afterTimer = [0, 2] \<and> totalCards afterTimer = 108 \<and>
   started restarted \<and> handSizes restarted = [7, 7] \<and> totalCards restarted = 106"
proof -
  have "mset (allCards staleStart) = mset (sort_key cardKey (allCards staleStart))" by simp
  also have "\<dots> = mset (sort_key cardKey getHand)" by (simp only: staleStart_deck)
  also have "\<dots> = mset getHand" by simp
  finally have deck: "mset (allCards staleStart) = mset getHand" .
  have start: "totalCards staleStart = 108 \<and>
     playerAt staleStart (turn staleStart) =
       Some (robot ''hal'' [Card ZERO YELLOW, Card ZERO BLUE, Card ONE RED, Card ONE RED,
                            Card ONE GREEN, Card ONE GREEN, Card ONE YELLOW]) \<and>
     last (announced staleStart) = PlayTimer"
    by (simp add: staleStart_def totalCards_def getHand_def human_def robot_def playerAt_def)
  from deck start afterTimer_run restarted_run show ?thesis by simp
qed

section \<open>Calling\<close>

text \<open>
  C3, as amended. Let there be a current player, let \<open>previousTurn\<close> be at least 0 and let
  the previous player hold exactly one card with \<open>calledUno\<close> false. Then \<open>callUno\<close>
  invoked by any caller other than that previous player, the pool holding at least two
  cards, makes the hand of the previous player grow by exactly two cards and leaves
  \<open>turn\<close> as it was; and any further call of \<open>callUno\<close>, by any caller, leaves all hands
  and the pool as they are. A call by the previous player itself is accepted late: it sets
  the flag \<open>calledUno\<close> of that player, and no card is drawn.
\<close>

theorem callUno_penalty_once:
  assumes cur: "playerAt g (turn g) = Some cur"
    and prev: "playerAt g (previousTurn g) = Some prev"
    and one: "length (hand prev) = 1"
    and nc: "\<not> calledUno prev"
  shows "(caller \<noteq> ident prev \<and> 2 \<le> length (discarded g) \<longrightarrow>
           (\<exists>g' prev'. callUno rnd caller g = Return () g' \<and>
              playerAt g' (previousTurn g) = Some prev' \<and>
              length (hand prev') = length (hand prev) + 2 \<and>
              length (discarded g') = length (discarded g) - 2 \<and>
              turn g' = turn g \<and> previousTurn g' = previousTurn g \<and>
              (\<forall>rnd2 caller2. \<exists>g''. callUno rnd2 caller2 g' = Return () g'' \<and>
                 map hand (players g'') = map hand (players g') \<and>
                 discarded g'' = discarded g' \<and> turn g'' = turn g'))) \<and>
         (caller = ident prev \<longrightarrow>
           (\<exists>g' prev'. callUno rnd caller g = Return () g' \<and>
              playerAt g' (previousTurn g) = Some prev' \<and>
              calledUno prev' \<and> hand prev' = hand prev \<and>
              map hand (players g') = map hand (players g) \<and>
              discarded g' = discarded g \<and>
              turn g' = turn g \<and> previousTurn g' = previousTurn g \<and>
              last (announced g') = UnoCalled caller))"
proof (intro conjI impI)
  assume ab: "caller \<noteq> ident prev \<and> 2 \<le> length (discarded g)"
  then have other: "caller \<noteq> ident prev" and pool: "2 \<le> length (discarded g)" by simp_all
  show "\<exists>g' prev'. callUno rnd caller g = Return () g' \<and>
              playerAt g' (previousTurn g) = Some prev' \<and>
              length (hand prev') = length (hand prev) + 2 \<and>
              length (discarded g') = length (discarded g) - 2 \<and>
              turn g' = turn g \<and> previousTurn g' = previousTurn g \<and>
              (\<forall>rnd2 caller2. \<exists>g''. callUno rnd2 caller2 g' = Return () g'' \<and>
                 map hand (players g'') = map hand (players g') \<and>
                 discarded g'' = discarded g' \<and> turn g'' = turn g')"
  proof -
    \<comment> \<open>the first call\<close>
    obtain g1 where o1: "ownCall caller g = Some g1"
      using cur by (auto simp: ownCall_def)
    note f1 = ownCall_frame [OF o1]
    from one have "length (hand prev) \<noteq> 2" by simp
    from ownCall_other [OF o1 prev this] have p1: "playerAt g1 (previousTurn g1) = Some prev"
      using f1 by simp
    from p1 other have l1: "lateCall caller g1 = Some g1" by (auto intro: lateCall_idle)
    let ?drawn = "fst (drawLoop rnd 2 (discarded g1))"
    let ?prev' = "prev\<lparr>hand := (if \<not> npc prev then sortHand (?drawn @ hand prev)
                                  else ?drawn @ hand prev), calledUno := False\<rparr>"
    let ?g' = "(say [ForgotUno (ident prev)] g1)\<lparr>
                   discarded := snd (drawLoop rnd 2 (discarded g1)),
                   players := (players g1)[nat (previousTurn g1) := ?prev']\<rparr>"
    have pen: "penalty rnd g1 = Return () ?g'"
      by (rule penalty_fires [OF p1 nc one])
    from prev have pt: "0 \<le> previousTurn g" by (auto dest: playerAt_SomeD)
    then have gt: "previousTurn g1 > -1" using f1 by simp
    have r: "callUno rnd caller g = Return () ?g'"
      using o1 gt l1 pen by (simp add: callUno_def)
    from playerAt_SomeD [OF p1] have i1: "nat (previousTurn g1) < length (players g1)" by simp
    have at': "playerAt ?g' (previousTurn g) = Some ?prev'"
      using i1 pt f1 by (simp add: playerAt_def)
    have len': "length (hand ?prev') = length (hand prev) + 2"
      using pool f1 by (simp add: sortHand_def drawLoop_length)
    have three: "length (hand ?prev') = 3" using len' one by simp
    have d': "length (discarded ?g') = length (discarded g) - 2"
      using pool f1 by (simp add: drawLoop_length)
    have t': "turn ?g' = turn g" "previousTurn ?g' = previousTurn g" using f1 by simp_all
    \<comment> \<open>any further call\<close>
    have again: "\<exists>g''. callUno rnd2 caller2 ?g' = Return () g'' \<and>
                map hand (players g'') = map hand (players ?g') \<and>
                discarded g'' = discarded ?g' \<and> turn g'' = turn ?g'" for rnd2 caller2
    proof -
      from cur f1 have "0 \<le> turn ?g' \<and> turn ?g' < int (length (players ?g'))"
        by (auto dest: playerAt_SomeD)
      then obtain c2 where c2: "playerAt ?g' (turn ?g') = Some c2"
        by (simp add: playerAt_def)
      then obtain g2 where o2: "ownCall caller2 ?g' = Some g2"
        by (auto simp: ownCall_def)
      note f2 = ownCall_frame [OF o2]
      from three have "length (hand ?prev') \<noteq> 2" by simp
      from ownCall_other [OF o2 at' this] have p2: "playerAt g2 (previousTurn g2) = Some ?prev'"
        using f2 t' by simp
      from three have n1: "length (hand ?prev') \<noteq> 1" by simp
      from lateCall_idle [OF p2, of caller2] n1 have l2: "lateCall caller2 g2 = Some g2" by simp
      from penalty_idle [OF p2, of rnd2] n1 have pen2: "penalty rnd2 g2 = Return () g2" by simp
      from gt f2 have gt2: "previousTurn g2 > -1" by simp
      have "callUno rnd2 caller2 ?g' = Return () g2"
        using o2 gt2 l2 pen2 by (simp add: callUno_def)
      with f2 show ?thesis by simp
    qed
    from r at' len' d' t' again show ?thesis by blast
  qed
next
  assume same: "caller = ident prev"
  obtain g1 where o1: "ownCall caller g = Some g1"
    using cur by (auto simp: ownCall_def)
  note f1 = ownCall_frame [OF o1]
  from one have "length (hand prev) \<noteq> 2" by simp
  from ownCall_other [OF o1 prev this] have p1: "playerAt g1 (previousTurn g1) = Some prev"
    using f1 by simp
  let ?prev' = "prev\<lparr>calledUno := True\<rparr>"
  let ?g2 = "say [UnoCalled (ident prev)] (setPlayer (previousTurn g1) ?prev' g1)"
  have l1: "lateCall caller g1 = Some ?g2"
    using p1 same nc one by (simp add: lateCall_def)
  note f2 = lateCall_frame [OF l1]
  have p2: "playerAt ?g2 (previousTurn ?g2) = Some ?prev'"
    using playerAt_setPlayer [OF p1, of ?prev'] by simp
  have pen: "penalty rnd ?g2 = Return () ?g2"
    by (rule penalty_idle [OF p2]) simp
  from prev have pt: "0 \<le> previousTurn g" by (auto dest: playerAt_SomeD)
  then have gt: "previousTurn g1 > -1" using f1 by simp
  have r: "callUno rnd caller g = Return () ?g2"
    using o1 gt l1 pen by (simp add: callUno_def)
  have at: "playerAt ?g2 (previousTurn g) = Some ?prev'"
    using p2 f1 by simp
  have la: "last (announced ?g2) = UnoCalled caller"
    using same by (simp add: say_def)
  show "\<exists>g' prev'. callUno rnd caller g = Return () g' \<and>
              playerAt g' (previousTurn g) = Some prev' \<and>
              calledUno prev' \<and> hand prev' = hand prev \<and>
              map hand (players g') = map hand (players g) \<and>
              discarded g' = discarded g \<and>
              turn g' = turn g \<and> previousTurn g' = previousTurn g \<and>
              last (announced g') = UnoCalled caller"
    apply (rule exI [of _ ?g2], rule exI [of _ ?prev'])
    using r at la f1 f2 by simp
qed

theorem callUno_penalty_once_witness:
  "playerAt oneLeft (turn oneLeft) = Some (human ''bob'' [Card SIX RED, Card SEVEN BLUE, Card EIGHT BLUE]) \<and>
   playerAt oneLeft (previousTurn oneLeft) = Some (human ''ann'' [Card FIVE RED]) \<and>
   handSizes oneLeft = [1, 3] \<and>
   handSizes (stateOf (callUno zeros ''bob'' oneLeft)) = [3, 3] \<and>
   turn (stateOf (callUno zeros ''bob'' oneLeft)) = turn oneLeft \<and>
   handSizes (stateOf (callUno zeros ''bob'' (stateOf (callUno zeros ''bob'' oneLeft)))) = [3, 3] \<and>
   (\<exists>g' prev'. callUno zeros ''ann'' oneLeft = Return () g' \<and>
      playerAt g' 0 = Some prev' \<and> calledUno prev' \<and> hand prev' = [Card FIVE RED] \<and>
      handSizes g' = [1, 3] \<and> length (discarded g') = 3 \<and> turn g' = 1)"
proof -
  have cur: "playerAt oneLeft (turn oneLeft) = Some (human ''bob'' [Card SIX RED, Card SEVEN BLUE, Card EIGHT BLUE])"
    by (simp add: oneLeft_def table_def playerAt_def)
  have prev: "playerAt oneLeft (previousTurn oneLeft) = Some (human ''ann'' [Card FIVE RED])"
    by (simp add: oneLeft_def table_def playerAt_def)
  have one: "length (hand (human ''ann'' [Card FIVE RED])) = 1" by (simp add: human_def)
  have nc: "\<not> calledUno (human ''ann'' [Card FIVE RED])" by (simp add: human_def)
  have ab: "''bob'' \<noteq> ident (human ''ann'' [Card FIVE RED]) \<and> 2 \<le> length (discarded oneLeft)"
    by (simp add: human_def oneLeft_def table_def)
  have same: "''ann'' = ident (human ''ann'' [Card FIVE RED])" by (simp add: human_def)
  have hs: "handSizes x = map length (map hand (players x))" for x
    by (simp add: handSizes_def comp_def)
  from callUno_penalty_once [OF cur prev one nc, where caller = "''bob''" and rnd = zeros,
      THEN conjunct1, THEN mp, OF ab]
  obtain g' prev' where r: "callUno zeros ''bob'' oneLeft = Return () g'"
    and again: "\<forall>rnd2 caller2. \<exists>g''. callUno rnd2 caller2 g' = Return () g'' \<and>
              map hand (players g'') = map hand (players g') \<and>
              discarded g'' = discarded g' \<and> turn g'' = turn g'" by blast
  have e: "callUno zeros ''bob'' oneLeft =
    Return () (oneLeft\<lparr>announced := [ForgotUno ''ann''], discarded := [Card THREE GREEN],
       players := [human ''ann'' [Card ONE RED, Card TWO BLUE, Card FIVE RED],
                   human ''bob'' [Card SIX RED, Card SEVEN BLUE, Card EIGHT BLUE]]\<rparr>)"
    by (simp add: oneLeft_def run_defs)
  from again obtain g'' where r2: "callUno zeros ''bob'' g' = Return () g''"
    and same2: "map hand (players g'') = map hand (players g')" by blast
  have h1: "handSizes (stateOf (callUno zeros ''bob'' oneLeft)) = [3, 3]"
    by (simp add: e handSizes_def human_def)
  have "handSizes g'' = handSizes g'"
    using same2 by (simp only: hs)
  with r r2 h1 have h2: "handSizes (stateOf (callUno zeros ''bob'' (stateOf (callUno zeros ''bob'' oneLeft)))) = [3, 3]"
    by simp
  have t: "turn (stateOf (callUno zeros ''bob'' oneLeft)) = turn oneLeft" by (simp add: e)
  have h0: "handSizes oneLeft = [1, 3]" by (simp add: oneLeft_def run_defs)
  from callUno_penalty_once [OF cur prev one nc, where caller = "''ann''" and rnd = zeros,
      THEN conjunct2, THEN mp, OF same]
  obtain k prev2 where l: "callUno zeros ''ann'' oneLeft = Return () k"
    and l1: "playerAt k (previousTurn oneLeft) = Some prev2" "calledUno prev2"
      "hand prev2 = hand (human ''ann'' [Card FIVE RED])"
    and l2: "map hand (players k) = map hand (players oneLeft)"
      "discarded k = discarded oneLeft" "turn k = turn oneLeft" by blast
  from l2(1) have "handSizes k = handSizes oneLeft" by (simp only: hs)
  with l l1 l2 h0 have late: "\<exists>g' prev'. callUno zeros ''ann'' oneLeft = Return () g' \<and>
      playerAt g' 0 = Some prev' \<and> calledUno prev' \<and> hand prev' = [Card FIVE RED] \<and>
      handSizes g' = [1, 3] \<and> length (discarded g') = 3 \<and> turn g' = 1"
    by (simp add: oneLeft_def table_def human_def)
  from cur prev h0 h1 t h2 late show ?thesis by blast
qed

theorem callUno_own_late_call_counterexample:
  "playerAt oneLeft (turn oneLeft) = Some (human ''bob'' [Card SIX RED, Card SEVEN BLUE, Card EIGHT BLUE]) \<and>
   0 \<le> previousTurn oneLeft \<and>
   playerAt oneLeft (previousTurn oneLeft) = Some (human ''ann'' [Card FIVE RED]) \<and>
   length (hand (human ''ann'' [Card FIVE RED])) = 1 \<and>
   \<not> calledUno (human ''ann'' [Card FIVE RED]) \<and>
   2 \<le> length (discarded oneLeft) \<and>
   handSizes oneLeft = [1, 3] \<and>
   handSizes (stateOf (callUno zeros ''ann'' oneLeft)) = [1, 3] \<and>
   announced (stateOf (callUno zeros ''ann'' oneLeft)) = [UnoCalled ''ann'']"
  by (simp add: oneLeft_def run_defs)




section \<open>Reverse among two players\<close>

text \<open>
  C4, as amended. In a game with exactly two players (the direction being 1 or -1, as it
  always is), a Reverse that the current player plays and that is not the last card of
  the hand flips the direction and makes the same player current again: the other player
  is announced as skipped, keeps the same hand, gets no turn and no timer in between, and
  the next turn announced is that of the player who played. (A Reverse played as the last
  card ends the game before any effect: the counterexample below.)
\<close>

theorem reverse_two_players:
  assumes sel: "selectCard rnd inp g = Chosen sel col g1"
    and cur: "turn g \<noteq> -1"
    and p: "playerAt g (turn g) = Some p"
    and rv: "face (hand p ! sel) = REVERSE"
    and two: "length (players g) = 2"
    and more: "2 \<le> length (hand p)"
    and dir: "direction g = 1 \<or> direction g = -1"
  shows "\<exists>g' opp. playCard rnd inp g = Return (Some False) g' \<and>
      direction g' = - direction g \<and> turn g' = turn g \<and>
      playerAt g (1 - turn g) = Some opp \<and> playerAt g' (1 - turn g) = Some opp \<and>
      playerAt g' (turn g) = Some (p\<lparr>hand := splice1 sel (hand p)\<rparr>) \<and>
      topCard g' = Some (paint col (hand p ! sel)) \<and>
      announced g' = announced g1 @
        Skipping (ident opp) # NextTurn (ident p) # (if npc p then [PlayTimer] else [])"
proof -
  let ?c = "paint col (hand p ! sel)"
  let ?g3 = "placeCard sel col g1"
  let ?p' = "p\<lparr>hand := splice1 sel (hand p)\<rparr>"
  note pc0 = playCard_continues [OF sel cur p more]
  then have s: "sel < length (hand p)" and c1: "turn g1 \<noteq> -1" "playerAt g1 (turn g1) = Some p"
    and run: "playCard rnd inp g = resolveEffects rnd ?c ?g3"
    using cur by auto
  note pc = placeCard_props [OF c1 s, of col]
  from p two have t01: "turn g = 0 \<or> turn g = 1" by (auto dest!: playerAt_SomeD)
  \<comment> \<open>the direction flips and, among two players, the other one is skipped\<close>
  let ?g4 = "?g3\<lparr>previousTurn := turn ?g3, direction := - direction ?g3\<rparr>"
  have g4: "applyReverse ?c (?g3\<lparr>previousTurn := turn ?g3\<rparr>) = ?g4"
    by (simp add: applyReverse_def rv REVERSE_bits)
  have l4: "length (players ?g4) = 2" using pc pc0 two by simp
  have sk: "skipFlag ?c ?g4" using l4 by (simp add: skipFlag_def rv REVERSE_bits)
  have c4: "turn ?g4 \<noteq> -1" "playerAt ?g4 (turn ?g4) = Some ?p'"
    using pc pc0 cur by simp_all
  have d4: "direction ?g4 = - direction g" using pc pc0 by simp
  have adv4: "advance ?g4 (turn ?g4) = 1 - turn g"
    using pc pc0 l4 d4 dir t01 by (auto simp: advance_def)
  from nextTurn_props [OF c4, of "rnd 3" True] adv4 obtain g5 opp where
    n5: "nextTurn (rnd 3) True ?g4 = Return () g5" and t5: "turn g5 = 1 - turn g"
    and q: "playerAt g5 (turn g5) = Some opp" and f5: "players g5 = players ?g4"
      "discarded g5 = discarded ?g4" "topCard g5 = topCard ?g4" "direction g5 = direction ?g4"
      "announced g5 = announced ?g4 @ [Skipping (ident opp)]"
    by auto
  have "playerAt g5 (1 - turn g) = playerAt ?g3 (1 - turn g)"
    by (rule playerAt_players) (simp add: f5)
  with q t5 have q3: "playerAt ?g3 (1 - turn g) = Some opp" by simp
  have "playerAt g1 (1 - turn g) = playerAt g (1 - turn g)"
    by (rule playerAt_players) (simp add: pc0)
  with q3 pc pc0 t01 have q0: "playerAt g (1 - turn g) = Some opp" by auto
  \<comment> \<open>nobody draws\<close>
  have fd: "forcedDraws rnd ?c g5 = Return () g5"
    by (simp add: forcedDraws_def rv REVERSE_bits)
  \<comment> \<open>and the turn comes back\<close>
  have c5: "turn g5 \<noteq> -1" "playerAt g5 (turn g5) = Some opp"
    using q t5 t01 by auto
  have adv5: "advance g5 (turn g5) = turn g"
    using t5 f5 l4 d4 dir t01 by (auto simp: advance_def)
  from nextTurn_props [OF c5, of "rnd 10" False] adv5 obtain g7 r where
    n7: "nextTurn (rnd 10) False g5 = Return () g7" and t7: "turn g7 = turn g"
    and r: "playerAt g7 (turn g7) = Some r" and f7: "players g7 = players g5"
      "topCard g7 = topCard g5" "direction g7 = direction g5"
      "announced g7 = announced g5 @ NextTurn (ident r) # (if npc r then [PlayTimer] else [])"
    by auto
  have res: "resolveEffects rnd ?c ?g3 = Return (Some False) g7"
    by (simp add: resolveEffects_def Let_def g4 sk n5 fd n7)
  have same7: "playerAt g7 i = playerAt ?g3 i" for i
    by (rule playerAt_players) (simp add: f7 f5)
  have r': "r = ?p'" using r t7 same7 [of "turn g"] pc pc0 by simp
  have o7: "playerAt g7 (1 - turn g) = Some opp" using same7 q3 by simp
  have p7: "playerAt g7 (turn g) = Some ?p'" using same7 [of "turn g"] pc pc0 by simp
  have top7: "topCard g7 = Some ?c" using f7 f5 pc by simp
  have dir7: "direction g7 = - direction g" using f7 f5 d4 by simp
  have ann7: "announced g7 = announced g1 @
        Skipping (ident opp) # NextTurn (ident p) # (if npc p then [PlayTimer] else [])"
    using f7 f5 pc r' by simp
  have fin: "playCard rnd inp g = Return (Some False) g7" using run res by simp
  show ?thesis
    apply (rule exI [of _ g7], rule exI [of _ opp])
    using fin dir7 t7 q0 o7 p7 top7 ann7 by simp
qed

theorem reverse_two_players_witness:
  "selectCard zeros (Parsed (Card REVERSE RED)) midGame = Chosen 1 None midGame \<and>
   length (players midGame) = 2 \<and> turn midGame = 0 \<and> direction midGame = 1 \<and>
   (\<exists>g'. playCard zeros (Parsed (Card REVERSE RED)) midGame = Return (Some False) g' \<and>
      direction g' = - 1 \<and> turn g' = 0 \<and>
      playerAt g' 1 = Some (robot ''hal'' [Card SIX BLUE, Card SEVEN BLUE, Card EIGHT BLUE]) \<and>
      topCard g' = Some (Card REVERSE RED) \<and>
      announced g' = [Skipping ''hal'', NextTurn ''ann''])"
proof -
  let ?ann = "human ''ann'' [Card THREE GREEN, Card REVERSE RED, Card DRAW_TWO RED]"
  have s: "selectCard zeros (Parsed (Card REVERSE RED)) midGame = Chosen 1 None midGame"
    by (simp add: midGame_def run_defs)
  have cur: "turn midGame \<noteq> -1" by (simp add: midGame_def table_def)
  have p: "playerAt midGame (turn midGame) = Some ?ann"
    by (simp add: midGame_def table_def playerAt_def)
  have rv: "face (hand ?ann ! 1) = REVERSE" by (simp add: human_def Card_def)
  have two: "length (players midGame) = 2" by (simp add: midGame_def table_def)
  have more: "2 \<le> length (hand ?ann)" by (simp add: human_def)
  have dir: "direction midGame = 1 \<or> direction midGame = -1" by (simp add: midGame_def table_def)
  have opp: "playerAt midGame (1 - turn midGame) =
      Some (robot ''hal'' [Card SIX BLUE, Card SEVEN BLUE, Card EIGHT BLUE])"
    by (simp add: midGame_def table_def playerAt_def)
  from reverse_two_players [OF s cur p rv two more dir] opp
  have "\<exists>g'. playCard zeros (Parsed (Card REVERSE RED)) midGame = Return (Some False) g' \<and>
      direction g' = - 1 \<and> turn g' = 0 \<and>
      playerAt g' 1 = Some (robot ''hal'' [Card SIX BLUE, Card SEVEN BLUE, Card EIGHT BLUE]) \<and>
      topCard g' = Some (Card REVERSE RED) \<and>
      announced g' = [Skipping ''hal'', NextTurn ''ann'']"
    by (auto simp: midGame_def table_def human_def robot_def paint_def Card_def)
  with s two show ?thesis by (simp add: midGame_def table_def)
qed

theorem reverse_last_card_counterexample:
  "selectCard zeros (Parsed (Card REVERSE RED)) lastReverse = Chosen 0 None lastReverse \<and>
   handInPlay lastReverse = [Card REVERSE RED] \<and>
   length (players lastReverse) = 2 \<and> direction lastReverse = 1 \<and>
   playCard zeros (Parsed (Card REVERSE RED)) lastReverse =
     Return (Some True)
       (lastReverse\<lparr>players := [human ''ann'' [],
                                 human ''bob'' [Card SIX RED, Card SEVEN BLUE, Card EIGHT BLUE]],
                    discarded := [Card ONE RED, Card TWO BLUE, Card NINE RED],
                    topCard := Some (Card REVERSE RED),
                    announced := [Winner ''ann'']\<rparr>) \<and>
   direction (stateOf (playCard zeros (Parsed (Card REVERSE RED)) lastReverse)) = 1"
  by (simp add: lastReverse_def run_defs)


section \<open>DrawTwo\<close>

text \<open>
  C5. When the current player plays a DrawTwo and keeps at least one card (the game does
  not end on that play), and the pool holds at least two cards, then the next player in
  turn order gains exactly two cards, is announced as skipped (no turn and no timer of its
  own, the DrawTwo stays the top card), and the turn passes to the player after the next
  one. The hand of the next player is compared with the state right after the card was
  played, which for every other player than the one who played is the state before.
\<close>

theorem drawTwo_law:
  assumes sel: "selectCard rnd inp g = Chosen sel col g1"
    and cur: "turn g \<noteq> -1"
    and p: "playerAt g (turn g) = Some p"
    and dt: "face (hand p ! sel) = DRAW_TWO"
    and more: "2 \<le> length (hand p)"
    and pool: "2 \<le> length (discarded g)"
  shows "\<exists>g' q q' r. playCard rnd inp g = Return (Some False) g' \<and>
      playerAt (placeCard sel col g1) (advance g (turn g)) = Some q \<and>
      (advance g (turn g) \<noteq> turn g \<longrightarrow> playerAt g (advance g (turn g)) = Some q) \<and>
      playerAt g' (advance g (turn g)) = Some q' \<and> ident q' = ident q \<and>
      length (hand q') = length (hand q) + 2 \<and>
      turn g' = advance g (advance g (turn g)) \<and>
      playerAt g' (turn g') = Some r \<and>
      topCard g' = Some (paint col (hand p ! sel)) \<and>
      direction g' = direction g \<and>
      announced g' = announced g1 @
        Skipping (ident q) # NextTurn (ident r) # (if npc r then [PlayTimer] else [])"
proof -
  let ?c = "paint col (hand p ! sel)"
  let ?g3 = "placeCard sel col g1"
  let ?nxt = "advance g (turn g)"
  note pc0 = playCard_continues [OF sel cur p more]
  then have s: "sel < length (hand p)" and c1: "turn g1 \<noteq> -1" "playerAt g1 (turn g1) = Some p"
    and run: "playCard rnd inp g = resolveEffects rnd ?c ?g3"
    using cur by auto
  note pc = placeCard_props [OF c1 s, of col]
  have fc: "face ?c = DRAW_TWO" using dt by simp
  \<comment> \<open>the direction stays, the next player is skipped\<close>
  let ?g4 = "?g3\<lparr>previousTurn := turn ?g3\<rparr>"
  have g4: "applyReverse ?c ?g4 = ?g4" by (simp add: applyReverse_def dt DRAW_TWO_bits)
  have sk: "skipFlag ?c ?g4" by (simp add: skipFlag_def dt DRAW_TWO_bits)
  have c4: "turn ?g4 \<noteq> -1" "playerAt ?g4 (turn ?g4) = Some (p\<lparr>hand := splice1 sel (hand p)\<rparr>)"
    using pc pc0 cur by simp_all
  have adv4: "advance ?g4 (turn ?g4) = ?nxt"
    using pc pc0 by (simp add: advance_def)
  from nextTurn_props [OF c4, of "rnd 3" True] adv4 obtain g5 q where
    n5: "nextTurn (rnd 3) True ?g4 = Return () g5" and t5: "turn g5 = ?nxt"
    and q: "playerAt g5 (turn g5) = Some q" and f5: "players g5 = players ?g4"
      "discarded g5 = discarded ?g4" "topCard g5 = topCard ?g4" "direction g5 = direction ?g4"
      "announced g5 = announced ?g4 @ [Skipping (ident q)]"
    by auto
  have "playerAt g5 ?nxt = playerAt ?g3 ?nxt"
    by (rule playerAt_players) (simp add: f5)
  with q t5 have q3: "playerAt ?g3 ?nxt = Some q" by simp
  have "playerAt g1 ?nxt = playerAt g ?nxt"
    by (rule playerAt_players) (simp add: pc0)
  with q3 pc pc0 have q0: "?nxt \<noteq> turn g \<longrightarrow> playerAt g ?nxt = Some q"
    by auto
  \<comment> \<open>the skipped player draws two cards\<close>
  have d5: "2 \<le> length (discarded g5)" using f5 pc pc0 pool by simp
  from drawCards_props [OF q, of "\<lambda>k. rnd (4 + k)" 2] d5 obtain g6 q' where
    r6: "drawCards (\<lambda>k. rnd (4 + k)) 2 g5 = Return () g6" and t6: "turn g6 = turn g5"
    and q': "playerAt g6 (turn g5) = Some q'" "length (hand q') = length (hand q) + 2"
      "ident q' = ident q"
    and f6: "length (players g6) = length (players g5)" "topCard g6 = topCard g5"
      "direction g6 = direction g5" "announced g6 = announced g5"
    by auto
  have fd: "forcedDraws rnd ?c g5 = Return () g6"
    by (simp add: forcedDraws_def dt DRAW_TWO_bits r6)
  \<comment> \<open>and the turn passes on\<close>
  have c6: "turn g6 \<noteq> -1" "playerAt g6 (turn g6) = Some q'"
    using q' t6 by (auto dest: playerAt_SomeD)
  have adv6: "advance g6 (turn g6) = advance g ?nxt"
    using t6 t5 f6 f5 pc pc0 by (simp add: advance_def)
  from nextTurn_props [OF c6, of "rnd 10" False] adv6 obtain g7 r where
    n7: "nextTurn (rnd 10) False g6 = Return () g7" and t7: "turn g7 = advance g ?nxt"
    and r: "playerAt g7 (turn g7) = Some r" and f7: "players g7 = players g6"
      "topCard g7 = topCard g6" "direction g7 = direction g6"
      "announced g7 = announced g6 @ NextTurn (ident r) # (if npc r then [PlayTimer] else [])"
    by auto
  have res: "resolveEffects rnd ?c ?g3 = Return (Some False) g7"
    by (simp add: resolveEffects_def Let_def g4 sk n5 fd n7)
  have "playerAt g7 ?nxt = playerAt g6 ?nxt"
    by (rule playerAt_players) (simp add: f7)
  with q' t5 have q7: "playerAt g7 ?nxt = Some q'" by simp
  have top7: "topCard g7 = Some ?c" using f7 f6 f5 pc by simp
  have dir7: "direction g7 = direction g" using f7 f6 f5 pc pc0 by simp
  have ann7: "announced g7 = announced g1 @
        Skipping (ident q) # NextTurn (ident r) # (if npc r then [PlayTimer] else [])"
    using f7 f6 f5 pc by simp
  have fin: "playCard rnd inp g = Return (Some False) g7" using run res by simp
  show ?thesis
    apply (rule exI [of _ g7], rule exI [of _ q], rule exI [of _ q'], rule exI [of _ r])
    using fin q3 q0 q7 q' t7 r top7 dir7 ann7 by simp
qed

theorem drawTwo_law_witness:
  "selectCard zeros (Parsed (Card DRAW_TWO RED)) midGame = Chosen 2 None midGame \<and>
   handSizes midGame = [3, 3] \<and> length (discarded midGame) = 3 \<and>
   advance midGame (turn midGame) = 1 \<and> advance midGame 1 = 0 \<and>
   (\<exists>g' q'. playCard zeros (Parsed (Card DRAW_TWO RED)) midGame = Return (Some False) g' \<and>
      playerAt g' 1 = Some q' \<and> ident q' = ''hal'' \<and> length (hand q') = 5 \<and> turn g' = 0 \<and>
      topCard g' = Some (Card DRAW_TWO RED) \<and>
      announced g' = [Skipping ''hal'', NextTurn ''ann''])"
proof -
  let ?ann = "human ''ann'' [Card THREE GREEN, Card REVERSE RED, Card DRAW_TWO RED]"
  have s: "selectCard zeros (Parsed (Card DRAW_TWO RED)) midGame = Chosen 2 None midGame"
    by (simp add: midGame_def run_defs)
  have cur: "turn midGame \<noteq> -1" by (simp add: midGame_def table_def)
  have p: "playerAt midGame (turn midGame) = Some ?ann"
    by (simp add: midGame_def table_def playerAt_def)
  have dt: "face (hand ?ann ! 2) = DRAW_TWO" by (simp add: human_def Card_def)
  have more: "2 \<le> length (hand ?ann)" by (simp add: human_def)
  have pool: "2 \<le> length (discarded midGame)" by (simp add: midGame_def table_def)
  have a1: "advance midGame (turn midGame) = 1" by (simp add: midGame_def table_def advance_def)
  have a2: "advance midGame 1 = 0" by (simp add: midGame_def table_def advance_def)
  have q: "playerAt midGame 1 =
      Some (robot ''hal'' [Card SIX BLUE, Card SEVEN BLUE, Card EIGHT BLUE])"
    by (simp add: midGame_def table_def playerAt_def)
  have t0: "turn midGame = 0" by (simp add: midGame_def table_def)
  from drawTwo_law [OF s cur p dt more pool] obtain g' q0 q' r where
    f: "playCard zeros (Parsed (Card DRAW_TWO RED)) midGame = Return (Some False) g'"
      "advance midGame (turn midGame) \<noteq> turn midGame \<longrightarrow>
         playerAt midGame (advance midGame (turn midGame)) = Some q0"
      "playerAt g' (advance midGame (turn midGame)) = Some q'" "ident q' = ident q0"
      "length (hand q') = length (hand q0) + 2"
      "turn g' = advance midGame (advance midGame (turn midGame))"
      "topCard g' = Some (paint None (hand ?ann ! 2))"
    by blast
  from f(2) a1 t0 q have q0: "q0 = robot ''hal'' [Card SIX BLUE, Card SEVEN BLUE, Card EIGHT BLUE]"
    by simp
  have e: "playCard zeros (Parsed (Card DRAW_TWO RED)) midGame =
     Return (Some False)
       (midGame\<lparr>players := [human ''ann'' [Card THREE GREEN, Card REVERSE RED],
                 robot ''hal'' [Card ONE RED, Card TWO BLUE, Card SIX BLUE, Card SEVEN BLUE,
                                Card EIGHT BLUE]],
          discarded := [Card FOUR GREEN, Card NINE RED], previousTurn := 0,
          topCard := Some (Card DRAW_TWO RED),
          announced := [Skipping ''hal'', NextTurn ''ann'']\<rparr>)"
    by (simp add: midGame_def run_defs)
  from f(1) have "g' = stateOf (playCard zeros (Parsed (Card DRAW_TWO RED)) midGame)" by simp
  then have an: "announced g' = [Skipping ''hal'', NextTurn ''ann'']" by (simp add: e)
  have "playerAt g' 1 = Some q' \<and> ident q' = ''hal'' \<and> length (hand q') = 5 \<and> turn g' = 0 \<and>
      topCard g' = Some (Card DRAW_TWO RED)"
    using f q0 a1 a2 by (simp add: robot_def human_def paint_def)
  with f(1) an have "\<exists>g' q'. playCard zeros (Parsed (Card DRAW_TWO RED)) midGame = Return (Some False) g' \<and>
      playerAt g' 1 = Some q' \<and> ident q' = ''hal'' \<and> length (hand q') = 5 \<and> turn g' = 0 \<and>
      topCard g' = Some (Card DRAW_TWO RED) \<and>
      announced g' = [Skipping ''hal'', NextTurn ''ann'']"
    by blast
  moreover have "handSizes midGame = [3, 3]" "length (discarded midGame) = 3"
    by (simp_all add: midGame_def run_defs)
  ultimately show ?thesis using s a1 a2 by blast
qed


section \<open>The autonomous player\<close>










section \<open>The color of a wild card\<close>

text \<open>
  C7, as amended. A wild card is played with a color that is not \<open>NONE\<close>: whoever selects
  it (the first play, an autonomous player, a human), the top card after the play is that
  card with the chosen color. When the next card is played it enters the pool as it is,
  with that color. When \<open>drawCards\<close> draws cards from the pool into a hand, every wild
  card among them has its color reset to \<open>NONE\<close>. (So the color of a played wild card
  does become \<open>NONE\<close> again: the counterexample below.)
\<close>

theorem wild_color_until_drawn:
  "(selectCard rnd inp g = Chosen sel col g1 \<and> face (handInPlay g1 ! sel) AND WILD_EFFECT \<noteq> 0 \<longrightarrow>
      (\<exists>k. col = Some k \<and> k \<noteq> NONE \<and>
           topCard (stateOf (playCard rnd inp g)) = Some ((handInPlay g1 ! sel)\<lparr>color := k\<rparr>))) \<and>
   (topCard g = Some t \<longrightarrow> last (discarded (placeCard sel col g)) = t) \<and>
   (playerAt g (turn g) = Some p \<longrightarrow>
      (\<exists>g' p' drawn. drawCards rnd n g = Return () g' \<and> playerAt g' (turn g) = Some p' \<and>
           mset (hand p') = mset drawn + mset (hand p) \<and>
           (\<forall>c \<in> set drawn. face c AND WILD_EFFECT \<noteq> 0 \<longrightarrow> color c = NONE)))"
proof (intro conjI impI)
  assume a: "selectCard rnd inp g = Chosen sel col g1 \<and>
             face (handInPlay g1 ! sel) AND WILD_EFFECT \<noteq> 0"
  with selectCard_wild_color [of rnd inp g sel col g1] obtain k where
    k: "col = Some k" "k \<noteq> NONE" by blast
  from a have "playCard rnd inp g = commitCard rnd sel col g1" by (simp add: playCard_def)
  with commitCard_topCard [of rnd sel col g1] k
  have "topCard (stateOf (playCard rnd inp g)) = Some ((handInPlay g1 ! sel)\<lparr>color := k\<rparr>)"
    by (simp add: paint_def)
  with k show "\<exists>k. col = Some k \<and> k \<noteq> NONE \<and>
           topCard (stateOf (playCard rnd inp g)) = Some ((handInPlay g1 ! sel)\<lparr>color := k\<rparr>)"
    by blast
next
  assume "topCard g = Some t"
  then show "last (discarded (placeCard sel col g)) = t" by (rule placeCard_pool)
next
  assume p: "playerAt g (turn g) = Some p"
  let ?drawn = "fst (drawLoop rnd n (discarded g))"
  let ?p' = "p\<lparr>hand := (if \<not> npc p then sortHand (?drawn @ hand p) else ?drawn @ hand p),
                calledUno := False\<rparr>"
  let ?g' = "g\<lparr>discarded := snd (drawLoop rnd n (discarded g)),
               players := (players g)[nat (turn g) := ?p']\<rparr>"
  from p have i: "0 \<le> turn g" "nat (turn g) < length (players g)"
    by (auto dest: playerAt_SomeD)
  have r: "drawCards rnd n g = Return () ?g'" by (rule drawCards_Return [OF p])
  have at: "playerAt ?g' (turn g) = Some ?p'" using i by (simp add: playerAt_def)
  have ms: "mset (hand ?p') = mset ?drawn + mset (hand p)" by (simp add: sortHand_def)
  have w: "\<forall>c \<in> set ?drawn. face c AND WILD_EFFECT \<noteq> 0 \<longrightarrow> color c = NONE"
    using drawLoop_wild by blast
  show "\<exists>g' p' drawn. drawCards rnd n g = Return () g' \<and> playerAt g' (turn g) = Some p' \<and>
           mset (hand p') = mset drawn + mset (hand p) \<and>
           (\<forall>c \<in> set drawn. face c AND WILD_EFFECT \<noteq> 0 \<longrightarrow> color c = NONE)"
    apply (rule exI [of _ ?g'], rule exI [of _ ?p'], rule exI [of _ ?drawn])
    using r at ms w by simp
qed

lemma wildPlayed_eq:
  "wildPlayed = (table [human ''ann'' [Card FIVE RED, Card SIX RED],
                      human ''bob'' [Card SEVEN GREEN, Card EIGHT GREEN, Card NINE GREEN]]
                 [Card TWO RED] (Card WILD GREEN) 1 0)\<lparr>announced := [NextTurn ''bob'']\<rparr>"
  by (simp add: wildPlayed_def wildTable_def run_defs)

lemma wildCovered_eq:
  "wildCovered = (table [human ''ann'' [Card FIVE RED, Card SIX RED],
                      human ''bob'' [Card EIGHT GREEN, Card NINE GREEN]]
                 [Card TWO RED, Card WILD GREEN] (Card SEVEN GREEN) 0 1)\<lparr>
                   announced := [NextTurn ''bob'', NextTurn ''ann'']\<rparr>"
  by (simp add: wildCovered_def wildPlayed_eq run_defs)

lemma wildDrawn_eq:
  "wildDrawn = (table [human ''ann'' [Card FIVE RED, Card SIX RED, Card WILD NONE],
                      human ''bob'' [Card EIGHT GREEN, Card NINE GREEN]]
                 [Card TWO RED] (Card SEVEN GREEN) 1 1)\<lparr>
                   announced := [NextTurn ''bob'', NextTurn ''ann'', NextTurn ''bob'']\<rparr>"
  by (simp add: wildDrawn_def wildCovered_eq run_defs)

theorem wild_color_reset_counterexample:
  "map hand (players wildTable) =
     [[Card FIVE RED, Card SIX RED, Card WILD NONE],
      [Card SEVEN GREEN, Card EIGHT GREEN, Card NINE GREEN]] \<and>
   discarded wildTable = [] \<and> topCard wildTable = Some (Card TWO RED) \<and>
   topCard wildPlayed = Some (Card WILD GREEN) \<and>
   discarded wildCovered = [Card TWO RED, Card WILD GREEN] \<and>
   map hand (players wildDrawn) =
     [[Card FIVE RED, Card SIX RED, Card WILD NONE], [Card EIGHT GREEN, Card NINE GREEN]] \<and>
   color (Card WILD NONE) = NONE"
  by (simp add: wildPlayed_eq wildCovered_eq wildDrawn_eq wildTable_def table_def human_def
      Card_def)

theorem wild_color_until_drawn_witness:
  "selectCard zeros (Parsed (Card WILD GREEN)) wildTable = Chosen 2 (Some GREEN) wildTable \<and>
   face (handInPlay wildTable ! 2) AND WILD_EFFECT \<noteq> 0 \<and>
   topCard (stateOf (playCard zeros (Parsed (Card WILD GREEN)) wildTable)) = Some (Card WILD GREEN) \<and>
   topCard wildPlayed = Some (Card WILD GREEN) \<and>
   last (discarded (placeCard 0 None wildPlayed)) = Card WILD GREEN \<and>
   playerAt wildCovered (turn wildCovered) = Some (human ''ann'' [Card FIVE RED, Card SIX RED]) \<and>
   (\<exists>g' p' drawn. drawCards ones 1 wildCovered = Return () g' \<and>
      playerAt g' (turn wildCovered) = Some p' \<and>
      mset (hand p') = mset drawn + mset (hand (human ''ann'' [Card FIVE RED, Card SIX RED])) \<and>
      (\<forall>c \<in> set drawn. face c AND WILD_EFFECT \<noteq> 0 \<longrightarrow> color c = NONE))"
proof -
  have s: "selectCard zeros (Parsed (Card WILD GREEN)) wildTable = Chosen 2 (Some GREEN) wildTable"
    by (simp add: wildTable_def run_defs)
  have w: "face (handInPlay wildTable ! 2) AND WILD_EFFECT \<noteq> 0"
    by (simp add: wildTable_def run_defs)
  have h: "handInPlay wildTable ! 2 = Card WILD NONE"
    by (simp add: wildTable_def run_defs)
  have tp: "topCard wildPlayed = Some (Card WILD GREEN)"
    by (simp add: wildPlayed_eq table_def)
  have at: "playerAt wildCovered (turn wildCovered) = Some (human ''ann'' [Card FIVE RED, Card SIX RED])"
    by (simp add: wildCovered_eq table_def playerAt_def)
  note th = wild_color_until_drawn [of zeros "Parsed (Card WILD GREEN)" wildTable 2 "Some GREEN"
      wildTable]
  note th1 = wild_color_until_drawn [of _ _ wildPlayed _ _ _ "Card WILD GREEN"]
  note th2 = wild_color_until_drawn [of _ _ wildCovered _ _ _ _
      "human ''ann'' [Card FIVE RED, Card SIX RED]"]
  from th s w have "\<exists>k. Some GREEN = Some k \<and> k \<noteq> NONE \<and>
       topCard (stateOf (playCard zeros (Parsed (Card WILD GREEN)) wildTable)) =
         Some ((handInPlay wildTable ! 2)\<lparr>color := k\<rparr>)" by blast
  then have t1: "topCard (stateOf (playCard zeros (Parsed (Card WILD GREEN)) wildTable)) =
      Some (Card WILD GREEN)"
    by (auto simp: h Card_def)
  from th1 tp have l: "last (discarded (placeCard 0 None wildPlayed)) = Card WILD GREEN"
    by blast
  from th2 at have d: "\<exists>g' p' drawn. drawCards ones 1 wildCovered = Return () g' \<and>
      playerAt g' (turn wildCovered) = Some p' \<and>
      mset (hand p') = mset drawn + mset (hand (human ''ann'' [Card FIVE RED, Card SIX RED])) \<and>
      (\<forall>c \<in> set drawn. face c AND WILD_EFFECT \<noteq> 0 \<longrightarrow> color c = NONE)"
    by blast
  from s w t1 tp l at d show ?thesis by blast
qed


section \<open>Removing the creator\<close>

text \<open>
  C8. The specification has \<open>removePlayer\<close> with the id of the creator, bare or in an
  object, leave the game unchanged. The guard of the source reads \<open>p.id\<close> after \<open>p\<close> has
  been replaced by the id, so it never holds, and the creator is removed like any other
  player: on the table \<open>lowPool\<close>, created by Ann, both calls take Ann out of the list of
  players and put the hand of Ann into the pool.
\<close>

theorem removePlayer_removes_creator:
  "maker lowPool = ''ann'' \<and> map ident (players lowPool) = [''ann'', ''hal''] \<and>
   map ident (players (stateOf (removePlayer 0 (BareId ''ann'') lowPool))) = [''hal''] \<and>
   map ident (players (stateOf (removePlayer 0 (Member ''ann'') lowPool))) = [''hal''] \<and>
   discarded (stateOf (removePlayer 0 (BareId ''ann'') lowPool)) =
     [Card WILD GREEN, Card FIVE RED]"
  by (simp add: lowPool_def run_defs)

end
